theory Spec2Isabelle
  imports Complex_Main "HOL-Library.Word"
begin

section \<open>Guide geometry and the cover-fit mapping\<close>

text \<open>
  The component is a TypeScript/React module. Its numbers are JavaScript numbers; the
  geometry below is modelled over the reals (exact arithmetic), canvas and video sizes
  are integers as the DOM delivers them.
\<close>

subsection \<open>Data\<close>

datatype OverlayMode = Face | Card

text \<open>\<^verbatim>\<open>interface Box { x; y; width; height }\<close> (the detector's box, video pixels).\<close>

record Box =
  box_x :: real
  box_y :: real
  box_width :: real
  box_height :: real

text \<open>The anonymous \<^verbatim>\<open>{ x, y, w, h }\<close> objects of \<^verbatim>\<open>cardOverlayRectCanvas\<close> and
  \<^verbatim>\<open>canvasRectToVideoRect\<close>.\<close>

record Rect =
  rect_x :: real
  rect_y :: real
  rect_w :: real
  rect_h :: real

text \<open>\<^verbatim>\<open>interface Mapping { cW; cH; vw; vh; scale; dx; dy; mirrored }\<close>.\<close>

record Mapping =
  m_cW :: real
  m_cH :: real
  m_vw :: real
  m_vh :: real
  m_scale :: real
  m_dx :: real
  m_dy :: real
  m_mirrored :: bool

text \<open>A \<^verbatim>\<open>Path2D\<close> is the sequence of the drawing calls made on it.\<close>

datatype path_cmd =
    MoveTo real real
  | LineTo real real
  | BezierCurveTo real real real real real real
  | QuadraticCurveTo real real real real
  | ClosePath

type_synonym Path2D = "path_cmd list"

subsection \<open>Path helpers\<close>

definition faceSilhouettePath2D :: "real \<Rightarrow> real \<Rightarrow> real \<Rightarrow> real \<Rightarrow> Path2D" where
  "faceSilhouettePath2D cx cy w h =
    (let rx = w / 2;
         ry = h / 1.8;
         topY = cy - ry;
         chinY = cy + ry * 0.86;
         browY = cy - ry * 0.35;
         cheekY = cy + ry * 0;
         jawY = cy + ry * 0.55;
         craniumX = rx * 1.05;
         templeX = rx * 0.95;
         cheekX = rx * 0.9;
         jawX = rx * 0.69
     in [MoveTo cx topY,
         BezierCurveTo (cx + craniumX) topY (cx + templeX) browY (cx + templeX) browY,
         BezierCurveTo (cx + templeX) (browY + ry * 0.1) (cx + cheekX) cheekY (cx + cheekX) cheekY,
         BezierCurveTo (cx + cheekX * 0.95) (cheekY + ry * 0.2) (cx + jawX) jawY (cx + jawX) jawY,
         BezierCurveTo (cx + jawX * 0.85) (jawY + ry * 0.2) (cx + (w * 0.2) / 2) chinY cx chinY,
         BezierCurveTo (cx - (w * 0.2) / 2) chinY (cx - jawX * 0.85) (jawY + ry * 0.2) (cx - jawX) jawY,
         BezierCurveTo (cx - jawX) jawY (cx - cheekX * 0.95) (cheekY + ry * 0.2) (cx - cheekX) cheekY,
         BezierCurveTo (cx - cheekX) cheekY (cx - templeX) (browY + ry * 0.1) (cx - templeX) browY,
         BezierCurveTo (cx - templeX) browY (cx - craniumX) topY cx topY,
         ClosePath])"

definition roundedRectPath2D :: "real \<Rightarrow> real \<Rightarrow> real \<Rightarrow> real \<Rightarrow> real \<Rightarrow> Path2D" where
  "roundedRectPath2D x y w h r =
    [MoveTo (x + r) y,
     LineTo (x + w - r) y,
     QuadraticCurveTo (x + w) y (x + w) (y + r),
     LineTo (x + w) (y + h - r),
     QuadraticCurveTo (x + w) (y + h) (x + w - r) (y + h),
     LineTo (x + r) (y + h),
     QuadraticCurveTo x (y + h) x (y + h - r),
     LineTo x (y + r),
     QuadraticCurveTo x y (x + r) y,
     ClosePath]"

definition cardOverlayRectCanvas :: "real \<Rightarrow> real \<Rightarrow> Rect" where
  "cardOverlayRectCanvas cW cH =
    (let w = cW * 0.9;
         h = w / 1.586;
         x = (cW - w) / 2;
         y = cH * 0.55 - h / 2
     in \<lparr>rect_x = x, rect_y = y, rect_w = w, rect_h = h\<rparr>)"

text \<open>The guide path built by \<^verbatim>\<open>draw\<close> (the \<^verbatim>\<open>// Build path for the guide\<close> block).\<close>

definition draw_guidePath :: "OverlayMode \<Rightarrow> real \<Rightarrow> real \<Rightarrow> Path2D" where
  "draw_guidePath current cW cH =
    (if current = Face then
       (let cx = cW / 2;
            cy = cH * 0.5;
            w = min cW cH * 0.7;
            h = w * 1.25
        in faceSilhouettePath2D cx cy w h)
     else
       (let rc = cardOverlayRectCanvas cW cH
        in roundedRectPath2D (rect_x rc) (rect_y rc) (rect_w rc) (rect_h rc)
             (min (rect_w rc) (rect_h rc) * 0.06)))"

text \<open>The path \<^verbatim>\<open>p\<close> that \<^verbatim>\<open>detectionTick\<close> builds for \<^verbatim>\<open>ctx.isPointInPath\<close>.\<close>

definition detectionTick_facePath :: "real \<Rightarrow> real \<Rightarrow> Path2D" where
  "detectionTick_facePath cW cH =
    faceSilhouettePath2D (cW / 2) (cH * 0.5) (min cW cH * 0.7) (min cW cH * 0.5 * 1.25)"

subsection \<open>The mapping published by the render loop\<close>

text \<open>
  \<^verbatim>\<open>draw\<close>, from \<^verbatim>\<open>const vw = video.videoWidth || 1440\<close> to
  \<^verbatim>\<open>mappingRef.current = { cW, cH, vw, vh, scale, dx, dy, mirrored }\<close>. The canvas size
  \<^verbatim>\<open>cW, cH\<close> is an integer (\<^verbatim>\<open>Math.floor\<close>), the video size an unsigned integer, and
  \<^verbatim>\<open>mirrored\<close> is \<^verbatim>\<open>overlayRef.current === 'face'\<close>.

  The geometry of this section is computed in real numbers, where the source computes
  in doubles. The two differ when a rounding error crosses the \<^verbatim>\<open>Math.floor\<close> of
  \<^verbatim>\<open>dx\<close> or \<^verbatim>\<open>dy\<close>: for a 375 x 667 canvas and a 1170 x 2532 video the source has
  \<^verbatim>\<open>vw * scale = 375.00000000000006\<close> and \<^verbatim>\<open>dx = -1\<close>, the real-number value is
  \<open>dx = 0\<close>. At the sizes that the theorems below evaluate (400 x 711 on 1080 x 1920,
  1000 x 631 on 640 x 404, 1080 x 1920 on 1440 x 2560) both give the same \<^verbatim>\<open>dx\<close> and
  \<^verbatim>\<open>dy\<close>; the scale of the first, \<open>10 / 27\<close>, is not a double, and the source's value
  differs from it by less than one part in \<open>2 ^ 53\<close>.
\<close>

definition draw_mapping :: "int \<Rightarrow> int \<Rightarrow> nat \<Rightarrow> nat \<Rightarrow> OverlayMode \<Rightarrow> Mapping" where
  "draw_mapping cW cH videoWidth videoHeight current =
    (let mirrored = (current = Face);
         vw = (if videoWidth = 0 then 1440 else real videoWidth);
         vh = (if videoHeight = 0 then 2560 else real videoHeight);
         scale = max (real_of_int cW / vw) (real_of_int cH / vh);
         dw = vw * scale;
         dh = vh * scale;
         dx = of_int \<lfloor>(real_of_int cW - dw) / 2\<rfloor>;
         dy = of_int \<lfloor>(real_of_int cH - dh) / 2\<rfloor>
     in \<lparr>m_cW = real_of_int cW, m_cH = real_of_int cH, m_vw = vw, m_vh = vh,
         m_scale = scale, m_dx = dx, m_dy = dy, m_mirrored = mirrored\<rparr>)"

text \<open>
  \<^verbatim>\<open>canvasRectToVideoRect(rc, m)\<close>. The source passes the fields
  \<^verbatim>\<open>{ vw, vh, scale, dx, dy, mirrored }\<close> of the mapping; the model passes the mapping
  and reads the same fields. Division by a zero scale gives an infinity or NaN in the
  source; the theorems below are stated for a positive scale.
\<close>

definition canvasRectToVideoRect :: "Rect \<Rightarrow> Mapping \<Rightarrow> Rect" where
  "canvasRectToVideoRect rc m =
    (let wv = rect_w rc / m_scale m;
         hv = rect_h rc / m_scale m;
         xv = (if m_mirrored m
               then m_vw m - (rect_x rc - m_dx m) / m_scale m - wv
               else (rect_x rc - m_dx m) / m_scale m);
         yv = (rect_y rc - m_dy m) / m_scale m
     in \<lparr>rect_x = max 0 xv, rect_y = max 0 yv, rect_w = min wv (m_vw m), rect_h = min hv (m_vh m)\<rparr>)"

text \<open>
  The forward placement of a video rectangle on the canvas. Not mirrored it is that of
  \<^verbatim>\<open>ctx.drawImage(video, dx, dy, dw, dh)\<close> in \<^verbatim>\<open>draw\<close>: a video point \<open>(x, y)\<close> lands
  at \<open>(dx + x * scale, dy + y * scale)\<close>. Mirrored it is the
  \<^verbatim>\<open>// map video -> canvas (mirrored)\<close> computation of \<^verbatim>\<open>detectionTick\<close>:
  \<^verbatim>\<open>left = dx + (vw - (b.x + b.width)) * scale\<close>, \<^verbatim>\<open>top = dy + b.y * scale\<close>.
\<close>

definition videoRectToCanvasRect :: "Rect \<Rightarrow> Mapping \<Rightarrow> Rect" where
  "videoRectToCanvasRect rv m =
    \<lparr>rect_x = (if m_mirrored m
               then m_dx m + (m_vw m - (rect_x rv + rect_w rv)) * m_scale m
               else m_dx m + rect_x rv * m_scale m),
     rect_y = m_dy m + rect_y rv * m_scale m,
     rect_w = rect_w rv * m_scale m,
     rect_h = rect_h rv * m_scale m\<rparr>"

definition inside_video :: "Rect \<Rightarrow> Mapping \<Rightarrow> bool" where
  "inside_video r m \<longleftrightarrow>
     0 \<le> rect_x r \<and> 0 \<le> rect_y r \<and> 0 \<le> rect_w r \<and> 0 \<le> rect_h r \<and>
     rect_x r + rect_w r \<le> m_vw m \<and> rect_y r + rect_h r \<le> m_vh m"

section \<open>The component: state, closures and callbacks\<close>

text \<open>The result of an awaited call: it throws (the promise rejects) or returns.\<close>

datatype 'a outcome = Throws | Returns 'a

text \<open>\<^verbatim>\<open>LightIdCheckProps\<close>. The \<^verbatim>\<open>onCapture\<close> callback is the caller's; the model logs its
  invocations in \<open>onCapture_calls\<close>. \<^verbatim>\<open>className\<close> is styling only.\<close>

record Props =
  p_faceModelsUrl :: string
  p_opencvUrl :: string
  p_isOpen :: bool
  p_initialOverlay :: OverlayMode
  p_autoCapture :: bool
  p_autoCaptureDelayMs :: nat

text \<open>
  A closure is the values of the render scope it was created in. \<^verbatim>\<open>detectionTick\<close> reads
  the props \<^verbatim>\<open>autoCapture\<close>, \<^verbatim>\<open>autoCaptureDelayMs\<close>, \<^verbatim>\<open>opencvUrl\<close> and the state variable
  \<^verbatim>\<open>capturePending\<close> from that scope; refs are read through their cells at call time.
  \<^verbatim>\<open>start\<close> reads \<^verbatim>\<open>faceModelsUrl\<close> and the \<^verbatim>\<open>detectionTick\<close> of its scope.
\<close>

record detectionTick_closure =
  dt_autoCapture :: bool
  dt_autoCaptureDelayMs :: nat
  dt_opencvUrl :: string
  dt_capturePending :: bool

record start_closure =
  st_faceModelsUrl :: string
  st_detectionTick :: detectionTick_closure

record Component =
  overlay :: OverlayMode  \<comment> \<open>\<^verbatim>\<open>useState\<close>\<close>
  isStreaming :: bool
  capturePending :: bool
  overlayRef :: OverlayMode  \<comment> \<open>\<^verbatim>\<open>useRef\<close> cells\<close>
  rafRef :: bool  \<comment> \<open>a frame request is pending (non-null)\<close>
  streamRef :: bool  \<comment> \<open>the camera stream is held (non-null)\<close>
  detectionTimerRef :: "detectionTick_closure option"
    \<comment> \<open>non-null: the interval runs, calling the function it was given\<close>
  faceModelsLoadedRef :: bool
  lastFaceBoxRef :: "Box option"
  faceInsideRef :: bool
  cardOkRef :: bool
  mappingRef :: "Mapping option"
  memo_detectionTick :: "detectionTick_closure option"  \<comment> \<open>\<^verbatim>\<open>useCallback\<close> cells\<close>
  memo_start :: "start_closure option"
  overlay_effect_dep :: "OverlayMode option"  \<comment> \<open>dependencies of the last effect runs\<close>
  open_effect_deps :: "(bool \<times> start_closure) option"
  playing_listener :: "detectionTick_closure option"
    \<comment> \<open>\<^verbatim>\<open>onPlaying\<close> registered by \<^verbatim>\<open>start\<close>, with the \<^verbatim>\<open>detectionTick\<close> it will install\<close>
  timeouts :: "nat list"  \<comment> \<open>pending \<^verbatim>\<open>setTimeout\<close> re-checks, oldest first, with their delay\<close>
  onCapture_calls :: "string option list"  \<comment> \<open>payloads \<^verbatim>\<open>onCapture\<close> was invoked with\<close>
  capture_calls :: nat  \<comment> \<open>invocations of \<^verbatim>\<open>capture\<close>\<close>

text \<open>What the environment delivers to one detection tick.\<close>

record TickInput =
  ti_video :: bool  \<comment> \<open>\<^verbatim>\<open>videoRef.current\<close> is non-null\<close>
  ti_detectSingleFace :: "Box option outcome"  \<comment> \<open>\<^verbatim>\<open>det?.box\<close>, or the call throws\<close>
  ti_ctx :: bool  \<comment> \<open>\<^verbatim>\<open>canvasRef.current?.getContext('2d')\<close> is non-null\<close>
  ti_isPointInPath :: "Path2D \<Rightarrow> real \<Rightarrow> real \<Rightarrow> bool"
  ti_ensureOpenCV :: "unit outcome"
  ti_isOpenCVReady :: bool
  ti_estimateCardOpenCV :: "Rect \<Rightarrow> bool outcome"
  ti_estimateCardHeuristic :: "nat \<Rightarrow> Rect \<Rightarrow> bool outcome"
    \<comment> \<open>the \<open>k\<close>-th call of the heuristic detector within the tick\<close>

record CaptureInput =
  cap_video :: bool  \<comment> \<open>\<^verbatim>\<open>videoRef.current\<close> is non-null\<close>
  cap_ctx :: bool  \<comment> \<open>the offscreen canvas gives a 2D context\<close>
  cap_dataUrl :: string  \<comment> \<open>what \<^verbatim>\<open>toDataURL\<close> returns\<close>

definition stopStream :: "Component \<Rightarrow> Component" where
  "stopStream s =
    (let s1 = (if rafRef s then s\<lparr>rafRef := False\<rparr> else s);
         s2 = (if detectionTimerRef s1 \<noteq> None then s1\<lparr>detectionTimerRef := None\<rparr> else s1);
         s3 = (if streamRef s2 then s2\<lparr>streamRef := False\<rparr> else s2)
     in s3\<lparr>isStreaming := False\<rparr>)"

definition close :: "Component \<Rightarrow> Component" where
  "close s = (let s1 = stopStream s in s1\<lparr>onCapture_calls := onCapture_calls s1 @ [None]\<rparr>)"

definition capture :: "CaptureInput \<Rightarrow> Component \<Rightarrow> Component" where
  "capture ci s =
    (let s0 = s\<lparr>capture_calls := Suc (capture_calls s)\<rparr>
     in if \<not> cap_video ci then s0
        else if \<not> cap_ctx ci then s0
        else s0\<lparr>onCapture_calls := onCapture_calls s0 @ [Some (cap_dataUrl ci)]\<rparr>)"

text \<open>
  The face branch of \<^verbatim>\<open>detectionTick\<close>: the body of its \<^verbatim>\<open>try\<close>; a throwing detector call
  leaves through the empty \<^verbatim>\<open>catch\<close> before any ref is written.
\<close>

definition detect_face :: "TickInput \<Rightarrow> Mapping \<Rightarrow> Component \<Rightarrow> Component" where
  "detect_face ti mapping s =
    (case ti_detectSingleFace ti of
       Throws \<Rightarrow> s
     | Returns det \<Rightarrow>
         (let s1 = s\<lparr>lastFaceBoxRef := det\<rparr>;
              s2 = s1\<lparr>faceInsideRef := False\<rparr>
          in case lastFaceBoxRef s2 of
               None \<Rightarrow> s2
             | Some b \<Rightarrow>
                 (let left = m_dx mapping + (m_vw mapping - (box_x b + box_width b)) * m_scale mapping;
                      top = m_dy mapping + box_y b * m_scale mapping;
                      centerX = left + (box_width b * m_scale mapping) / 2;
                      centerY = top + (box_height b * m_scale mapping) / 2;
                      p = detectionTick_facePath (m_cW mapping) (m_cH mapping)
                  in if ti_ctx ti
                     then s2\<lparr>faceInsideRef := ti_isPointInPath ti p centerX centerY\<rparr>
                     else s2)))"

text \<open>
  The card branch: the value assigned to \<^verbatim>\<open>cardOkRef.current\<close>, or \<open>Throws\<close> when the
  heuristic detector of the inner \<^verbatim>\<open>catch\<close> (or of the \<^verbatim>\<open>else\<close>, and then again of the
  \<^verbatim>\<open>catch\<close>) throws and the outer \<^verbatim>\<open>catch\<close> swallows it.
\<close>

definition card_detect :: "TickInput \<Rightarrow> Rect \<Rightarrow> bool outcome" where
  "card_detect ti rv =
    (case ti_ensureOpenCV ti of
       Throws \<Rightarrow> ti_estimateCardHeuristic ti 0 rv
     | Returns _ \<Rightarrow>
         if ti_isOpenCVReady ti then
           (case ti_estimateCardOpenCV ti rv of
              Throws \<Rightarrow> ti_estimateCardHeuristic ti 0 rv
            | Returns b \<Rightarrow> Returns b)
         else
           (case ti_estimateCardHeuristic ti 0 rv of
              Throws \<Rightarrow> ti_estimateCardHeuristic ti 1 rv
            | Returns b \<Rightarrow> Returns b))"

definition detect_card :: "TickInput \<Rightarrow> Mapping \<Rightarrow> Component \<Rightarrow> Component" where
  "detect_card ti mapping s =
    (let rc = cardOverlayRectCanvas (m_cW mapping) (m_cH mapping);
         rv = canvasRectToVideoRect rc mapping
     in case card_detect ti rv of
          Throws \<Rightarrow> s
        | Returns b \<Rightarrow> s\<lparr>cardOkRef := b\<rparr>)"

text \<open>The \<^verbatim>\<open>// Auto-capture if enabled and detection is OK\<close> block; \<^verbatim>\<open>autoCapture\<close>,
  \<^verbatim>\<open>capturePending\<close> and \<^verbatim>\<open>autoCaptureDelayMs\<close> are the closure's.\<close>

definition autoCapture_arm :: "detectionTick_closure \<Rightarrow> Component \<Rightarrow> Component" where
  "autoCapture_arm c s =
    (if dt_autoCapture c \<and> \<not> dt_capturePending c then
       (let ok = (if overlayRef s = Face then faceInsideRef s else cardOkRef s)
        in if ok
           then s\<lparr>capturePending := True, timeouts := timeouts s @ [dt_autoCaptureDelayMs c]\<rparr>
           else s)
     else s)"

definition detectionTick :: "detectionTick_closure \<Rightarrow> TickInput \<Rightarrow> Component \<Rightarrow> Component" where
  "detectionTick c ti s =
    (case mappingRef s of
       None \<Rightarrow> s
     | Some mapping \<Rightarrow>
         if \<not> ti_video ti then s
         else
           (let s1 = (if overlayRef s = Face \<and> faceModelsLoadedRef s then detect_face ti mapping s
                      else if overlayRef s = Card then detect_card ti mapping s
                      else s)
            in autoCapture_arm c s1))"

text \<open>The callback given to \<^verbatim>\<open>setTimeout\<close>, run for the oldest pending timeout.\<close>

definition timeout_fires :: "CaptureInput \<Rightarrow> Component \<Rightarrow> Component" where
  "timeout_fires ci s =
    (case timeouts s of
       [] \<Rightarrow> s
     | d # rest \<Rightarrow>
         (let s1 = s\<lparr>timeouts := rest\<rparr>;
              s2 = (if (if overlayRef s1 = Face then faceInsideRef s1 else cardOkRef s1)
                    then capture ci s1 else s1)
          in s2\<lparr>capturePending := False\<rparr>))"

text \<open>
  One execution of the component function followed by its effects. \<^verbatim>\<open>useCallback\<close> keeps
  the memoised closure while its dependency list is unchanged: \<^verbatim>\<open>[autoCapture,
  autoCaptureDelayMs, opencvUrl]\<close> for \<^verbatim>\<open>detectionTick\<close>, \<^verbatim>\<open>[ensureFaceModels,
  faceModelsUrl]\<close> for \<^verbatim>\<open>start\<close> (\<^verbatim>\<open>ensureFaceModels\<close> and \<^verbatim>\<open>stopStream\<close> have empty
  lists and never change). An effect runs when its dependencies changed; the open effect
  first runs the cleanup its previous run returned.
\<close>

definition render :: "Props \<Rightarrow> Component \<Rightarrow> Component" where
  "render p s =
    (let fresh = \<lparr>dt_autoCapture = p_autoCapture p,
                  dt_autoCaptureDelayMs = p_autoCaptureDelayMs p,
                  dt_opencvUrl = p_opencvUrl p,
                  dt_capturePending = capturePending s\<rparr>;
         tick = (case memo_detectionTick s of
                   None \<Rightarrow> fresh
                 | Some c \<Rightarrow>
                     if dt_autoCapture c = p_autoCapture p
                        \<and> dt_autoCaptureDelayMs c = p_autoCaptureDelayMs p
                        \<and> dt_opencvUrl c = p_opencvUrl p
                     then c else fresh);
         fresh_start = \<lparr>st_faceModelsUrl = p_faceModelsUrl p, st_detectionTick = tick\<rparr>;
         start = (case memo_start s of
                    None \<Rightarrow> fresh_start
                  | Some st \<Rightarrow> if st_faceModelsUrl st = p_faceModelsUrl p then st else fresh_start);
         s1 = s\<lparr>memo_detectionTick := Some tick, memo_start := Some start\<rparr>;
         s2 = (if overlay_effect_dep s1 = Some (overlay s1) then s1
               else s1\<lparr>overlayRef := overlay s1, overlay_effect_dep := Some (overlay s1)\<rparr>)
     in if open_effect_deps s2 = Some (p_isOpen p, start) then s2
        else
          (let s3 = (case open_effect_deps s2 of
                       None \<Rightarrow> s2
                     | Some (was_open, _) \<Rightarrow> if was_open then stopStream s2 else s2);
               s4 = (if p_isOpen p then s3\<lparr>playing_listener := Some (st_detectionTick start)\<rparr>
                     else s3)
           in s4\<lparr>open_effect_deps := Some (p_isOpen p, start)\<rparr>))"

text \<open>
  The camera stream arrives and the video starts playing: \<^verbatim>\<open>streamRef.current = stream\<close>
  of \<^verbatim>\<open>start\<close>, then its listener \<^verbatim>\<open>onPlaying\<close> (registered with \<^verbatim>\<open>once: true\<close>), which
  installs the \<^verbatim>\<open>detectionTick\<close> of the scope \<^verbatim>\<open>start\<close> was created in.
\<close>

definition onPlaying :: "Component \<Rightarrow> Component" where
  "onPlaying s =
    (case playing_listener s of
       None \<Rightarrow> s
     | Some tick \<Rightarrow>
         (let s1 = s\<lparr>streamRef := True, playing_listener := None, isStreaming := True\<rparr>;
              s2 = (if \<not> rafRef s1 then s1\<lparr>rafRef := True\<rparr> else s1)
          in if detectionTimerRef s2 = None then s2\<lparr>detectionTimerRef := Some tick\<rparr> else s2))"

text \<open>A frame of \<^verbatim>\<open>draw\<close> that passes its readiness guards publishes the mapping.\<close>

definition draw :: "int \<Rightarrow> int \<Rightarrow> nat \<Rightarrow> nat \<Rightarrow> Component \<Rightarrow> Component" where
  "draw cW cH videoWidth videoHeight s =
    s\<lparr>mappingRef := Some (draw_mapping cW cH videoWidth videoHeight (overlayRef s))\<rparr>"

text \<open>
  What happens to the component, one event at a time. \<^verbatim>\<open>detectionTick\<close> is an
  \<^verbatim>\<open>async\<close> function; a tick is run to its end on the detector results the environment
  delivers for it. A state update (\<^verbatim>\<open>setOverlay\<close>, \<^verbatim>\<open>setCapturePending\<close>) is stored at
  once and reaches closures and effects with the next \<open>Render\<close>. The \<^verbatim>\<open>error\<close> state and
  the markup are left out.
\<close>

datatype event =
    Render Props  \<comment> \<open>the component re-renders (new props or a state update)\<close>
  | Playing
  | FaceModelsLoaded
  | AnimationFrame int int nat nat
  | IntervalTick TickInput
  | TimeoutFires CaptureInput
  | ClickClose
  | ClickCapture CaptureInput
  | SelectOverlay OverlayMode

text \<open>The controls exist only while \<^verbatim>\<open>isOpen\<close> holds (\<^verbatim>\<open>{isOpen && (...)}\<close>), and the
  capture button is disabled while not streaming.\<close>

definition is_open :: "Component \<Rightarrow> bool" where
  "is_open s = (case open_effect_deps s of None \<Rightarrow> False | Some (opened, _) \<Rightarrow> opened)"

fun step :: "event \<Rightarrow> Component \<Rightarrow> Component" where
  "step (Render p) s = render p s"
| "step Playing s = onPlaying s"
| "step FaceModelsLoaded s = s\<lparr>faceModelsLoadedRef := True\<rparr>"
| "step (AnimationFrame cW cH videoWidth videoHeight) s =
     (if rafRef s then draw cW cH videoWidth videoHeight s else s)"
| "step (IntervalTick ti) s =
     (case detectionTimerRef s of None \<Rightarrow> s | Some c \<Rightarrow> detectionTick c ti s)"
| "step (TimeoutFires ci) s = timeout_fires ci s"
| "step ClickClose s = (if is_open s then close s else s)"
| "step (ClickCapture ci) s = (if is_open s \<and> isStreaming s then capture ci s else s)"
| "step (SelectOverlay v) s = (if is_open s then s\<lparr>overlay := v\<rparr> else s)"

definition run :: "event list \<Rightarrow> Component \<Rightarrow> Component" where
  "run es s = fold step es s"

text \<open>The first render: the initial values of the \<^verbatim>\<open>useState\<close> and \<^verbatim>\<open>useRef\<close> calls.\<close>

definition mount :: "Props \<Rightarrow> Component" where
  "mount p =
    render p
      \<lparr>overlay = p_initialOverlay p, isStreaming = False, capturePending = False,
       overlayRef = p_initialOverlay p, rafRef = False, streamRef = False,
       detectionTimerRef = None, faceModelsLoadedRef = False, lastFaceBoxRef = None,
       faceInsideRef = False, cardOkRef = False, mappingRef = None,
       memo_detectionTick = None, memo_start = None, overlay_effect_dep = None,
       open_effect_deps = None, playing_listener = None, timeouts = [],
       onCapture_calls = [], capture_calls = 0\<rparr>"

section \<open>Double precision arithmetic\<close>

text \<open>
  A JavaScript number is an IEEE 754 binary64 value, and each arithmetic operation
  returns the exact result rounded to the nearest such value, ties to the even
  significand. A finite double is \<open>m * 2 ^ (e - 52)\<close> with an integer \<open>|m| < 2 ^ 53\<close> and
  \<open>- 1022 \<le> e \<le> 1023\<close>; the subnormal numbers are those with \<open>e = - 1022\<close> and
  \<open>|m| < 2 ^ 52\<close>. \<open>binary64 x\<close> is the double that the real number \<open>x\<close> rounds to.

  \<open>log2_floor n a\<close> is \<open>\<lfloor>log\<^sub>2 a\<rfloor>\<close> for a positive \<open>a\<close> between \<open>2 ^ - n\<close> and \<open>2 ^ n\<close>, and
  \<open>exponent a\<close> is the exponent \<open>e\<close> of the binade of \<open>a\<close>. Overflow is outside the
  model: a result of magnitude \<open>2 ^ 1024\<close> or more is \<^verbatim>\<open>Infinity\<close> in the source and a
  real number here. The heuristic detector, the one place where this arithmetic is
  used, keeps every value below \<open>2 ^ 10\<close>.
\<close>

fun log2_floor :: "nat \<Rightarrow> real \<Rightarrow> int" where
  "log2_floor 0 x = 0"
| "log2_floor (Suc n) x =
     (if 2 \<le> x then log2_floor n (x / 2) + 1
      else if x < 1 then log2_floor n (x * 2) - 1
      else 0)"

abbreviation pow2 :: "int \<Rightarrow> real" where
  "pow2 e \<equiv> power_int 2 e"

definition exponent :: "real \<Rightarrow> int" where
  "exponent a = max (- 1022) (log2_floor 1100 a)"

definition round_half_even :: "real \<Rightarrow> int" where
  "round_half_even y =
     (let f = \<lfloor>y\<rfloor>; r = y - of_int f
      in if r < 1 / 2 then f
         else if 1 / 2 < r then f + 1
         else if even f then f else f + 1)"

definition binary64 :: "real \<Rightarrow> real" where
  "binary64 x =
     (if x = 0 then 0
      else (let a = \<bar>x\<bar>;
                q = pow2 (exponent a - 52)
            in sgn x * (q * of_int (round_half_even (a / q)))))"

section \<open>The heuristic card detector\<close>

text \<open>
  \<^verbatim>\<open>edgeScore(data, w, h)\<close>. \<^verbatim>\<open>data\<close> is a \<^verbatim>\<open>Uint8ClampedArray\<close>: a list of bytes. A read
  outside the array gives \<^verbatim>\<open>undefined\<close> and the arithmetic on it \<^verbatim>\<open>NaN\<close>, which then
  stays in the accumulator: a possibly-\<^verbatim>\<open>NaN\<close> number is a \<open>real option\<close> with \<open>None\<close>
  for \<^verbatim>\<open>NaN\<close>. The literals \<^verbatim>\<open>0.299\<close>, \<^verbatim>\<open>0.587\<close>, \<^verbatim>\<open>0.114\<close> and \<^verbatim>\<open>0.18\<close> are the doubles
  nearest to these decimals, and every \<^verbatim>\<open>*\<close>, \<^verbatim>\<open>+\<close>, \<^verbatim>\<open>-\<close> and \<^verbatim>\<open>/\<close> on numbers rounds its
  result; \<^verbatim>\<open>Math.abs\<close> is exact. The indices and the sample positions are integers far
  below \<open>2 ^ 53\<close>, on which the source's arithmetic is exact: they are \<open>int\<close>, and
  \<^verbatim>\<open>Math.floor(a / samples)\<close> on them is \<open>div\<close>.
\<close>

definition byte :: "8 word \<Rightarrow> real" where
  "byte v = real (unat v)"

definition lum :: "8 word list \<Rightarrow> int \<Rightarrow> real option" where
  "lum data i =
    (if 0 \<le> i \<and> nat i + 2 < length data
     then Some (binary64 (binary64 (binary64 (binary64 0.299 * byte (data ! nat i))
                                    + binary64 (binary64 0.587 * byte (data ! (nat i + 1))))
                          + binary64 (binary64 0.114 * byte (data ! (nat i + 2)))))
     else None)"

definition idx :: "int \<Rightarrow> int \<Rightarrow> int \<Rightarrow> int" where
  "idx w x y = (y * w + x) * 4"

definition clamp :: "int \<Rightarrow> int \<Rightarrow> int \<Rightarrow> int" where
  "clamp v mn mx = max mn (min mx v)"

definition samples :: nat where
  "samples = 200"

text \<open>\<^verbatim>\<open>Math.abs(lum(i) - lum(j)) / 255\<close> and \<^verbatim>\<open>acc += t\<close>.\<close>

definition contrast :: "8 word list \<Rightarrow> int \<Rightarrow> int \<Rightarrow> real option" where
  "contrast data i j =
    (case lum data i of
       None \<Rightarrow> None
     | Some a \<Rightarrow>
         (case lum data j of
            None \<Rightarrow> None
          | Some b \<Rightarrow> Some (binary64 (\<bar>binary64 (a - b)\<bar> / 255))))"

definition nan_plus :: "real option \<Rightarrow> real option \<Rightarrow> real option" where
  "nan_plus acc t =
    (case acc of
       None \<Rightarrow> None
     | Some a \<Rightarrow> (case t of None \<Rightarrow> None | Some b \<Rightarrow> Some (binary64 (a + b))))"

function edge_loop_rows :: "8 word list \<Rightarrow> int \<Rightarrow> int \<Rightarrow> nat \<Rightarrow> real option \<Rightarrow> nat \<Rightarrow> real option \<times> nat" where
  "edge_loop_rows data w h s acc n =
    (if s < samples then
       (let x = 2 + ((w - 4) * int s) div int samples;
            y1 = 2;
            y2 = min 5 (h - 1);
            acc1 = nan_plus acc (contrast data (idx w x y1) (idx w x y2));
            n1 = n + 1;
            yb1 = h - 3;
            yb2 = clamp (h - 6) 0 (h - 1);
            acc2 = nan_plus acc1 (contrast data (idx w x yb1) (idx w x yb2));
            n2 = n1 + 1
        in edge_loop_rows data w h (s + 1) acc2 n2)
     else (acc, n))"
  by pat_completeness auto
termination
  by (relation "measure (\<lambda>(data, w, h, s, acc, n). samples - s)") auto

function edge_loop_cols :: "8 word list \<Rightarrow> int \<Rightarrow> int \<Rightarrow> nat \<Rightarrow> real option \<Rightarrow> nat \<Rightarrow> real option \<times> nat" where
  "edge_loop_cols data w h s acc n =
    (if s < samples then
       (let y = 2 + ((h - 4) * int s) div int samples;
            x1 = 2;
            x2 = min 5 (w - 1);
            acc1 = nan_plus acc (contrast data (idx w x1 y) (idx w x2 y));
            n1 = n + 1;
            xr1 = w - 3;
            xr2 = clamp (w - 6) 0 (w - 1);
            acc2 = nan_plus acc1 (contrast data (idx w xr1 y) (idx w xr2 y));
            n2 = n1 + 1
        in edge_loop_cols data w h (s + 1) acc2 n2)
     else (acc, n))"
  by pat_completeness auto
termination
  by (relation "measure (\<lambda>(data, w, h, s, acc, n). samples - s)") auto

definition edgeScore :: "8 word list \<Rightarrow> int \<Rightarrow> int \<Rightarrow> real option" where
  "edgeScore data w h =
    (case edge_loop_rows data w h 0 (Some 0) 0 of
       (acc, n) \<Rightarrow>
         (case edge_loop_cols data w h 0 acc n of
            (acc', n') \<Rightarrow>
              (case acc' of None \<Rightarrow> None | Some a \<Rightarrow> Some (binary64 (a / real n')))))"

text \<open>
  \<^verbatim>\<open>estimateCardHeuristic\<close>, from the context check on. \<open>ctx\<close> says whether the offscreen
  canvas gave a 2D context, \<open>img\<close> is \<^verbatim>\<open>ctx.getImageData(0, 0, outW, outH).data\<close> after
  the region of interest was drawn; a comparison with \<^verbatim>\<open>NaN\<close> is false.
\<close>

definition heuristic_outW :: int where
  "heuristic_outW = 320"

definition heuristic_outH :: int where
  "heuristic_outH = max 1 (round (real_of_int heuristic_outW / 1.586))"

definition estimateCardHeuristic :: "bool \<Rightarrow> 8 word list \<Rightarrow> bool" where
  "estimateCardHeuristic ctx img =
    (if \<not> ctx then False
     else (case edgeScore img heuristic_outW heuristic_outH of
             None \<Rightarrow> False
           | Some score \<Rightarrow> score > binary64 0.18))"

subsection \<open>The score as the specification words it\<close>

text \<open>
  For comparison with the loops, the score in the specification's words, over pixels
  rather than array indices. The working raster is 320 pixels wide and 202 high; an
  \<^verbatim>\<open>ImageData\<close> buffer holds it row by row, four bytes (red, green, blue, alpha) per
  pixel, so channel \<open>c\<close> of pixel \<open>(x, y)\<close> is byte \<open>4 * (320 * y + x) + c\<close>.

  The samples are 200 columns \<open>x = 2 + \<lfloor>316 s / 200\<rfloor>\<close>, each giving a pair of pixels
  near the top edge (rows 2 and 5) and one near the bottom edge (rows 199 and 196),
  then 200 rows \<open>y = 2 + \<lfloor>198 s / 200\<rfloor>\<close>, each giving a pair near the left edge
  (columns 2 and 5) and one near the right edge (columns 317 and 314).

  \<open>spec_Y\<close>, \<open>spec_pair_contrast\<close> and \<open>spec_average\<close> are the luminance
  \<open>0.299 R + 0.587 G + 0.114 B\<close>, the normalised difference \<open>|Y1 - Y2| / 255\<close> and the
  average over the pairs as real numbers; the \<open>_double\<close> variants are the same
  expressions evaluated in double precision, the sum taken in the order of the list.
\<close>

type_synonym pixel = "nat \<times> nat"

definition in_raster :: "pixel \<Rightarrow> bool" where
  "in_raster p \<longleftrightarrow> fst p < 320 \<and> snd p < 202"

definition spec_channel :: "8 word list \<Rightarrow> pixel \<Rightarrow> nat \<Rightarrow> real" where
  "spec_channel img p c = byte (img ! (4 * (320 * snd p + fst p) + c))"

definition spec_Y :: "8 word list \<Rightarrow> pixel \<Rightarrow> real" where
  "spec_Y img p =
     0.299 * spec_channel img p 0 + 0.587 * spec_channel img p 1 + 0.114 * spec_channel img p 2"

definition spec_Y_double :: "8 word list \<Rightarrow> pixel \<Rightarrow> real" where
  "spec_Y_double img p =
     binary64 (binary64 (binary64 (binary64 0.299 * spec_channel img p 0)
                         + binary64 (binary64 0.587 * spec_channel img p 1))
               + binary64 (binary64 0.114 * spec_channel img p 2))"

definition spec_top_bottom :: "nat \<Rightarrow> (pixel \<times> pixel) list" where
  "spec_top_bottom s =
     (let x = 2 + (316 * s) div 200 in [((x, 2), (x, 5)), ((x, 199), (x, 196))])"

definition spec_left_right :: "nat \<Rightarrow> (pixel \<times> pixel) list" where
  "spec_left_right s =
     (let y = 2 + (198 * s) div 200 in [((2, y), (5, y)), ((317, y), (314, y))])"

definition spec_sample_pairs :: "(pixel \<times> pixel) list" where
  "spec_sample_pairs =
     concat (map spec_top_bottom [0..<200]) @ concat (map spec_left_right [0..<200])"

definition spec_pair_contrast :: "8 word list \<Rightarrow> pixel \<times> pixel \<Rightarrow> real" where
  "spec_pair_contrast img pq = \<bar>spec_Y img (fst pq) - spec_Y img (snd pq)\<bar> / 255"

definition spec_pair_contrast_double :: "8 word list \<Rightarrow> pixel \<times> pixel \<Rightarrow> real" where
  "spec_pair_contrast_double img pq =
     binary64 (\<bar>binary64 (spec_Y_double img (fst pq) - spec_Y_double img (snd pq))\<bar> / 255)"

definition spec_average :: "8 word list \<Rightarrow> real" where
  "spec_average img =
     (\<Sum>pq \<leftarrow> spec_sample_pairs. spec_pair_contrast img pq) / real (length spec_sample_pairs)"

definition sum_double :: "real \<Rightarrow> real list \<Rightarrow> real" where
  "sum_double = foldl (\<lambda>acc t. binary64 (acc + t))"

definition spec_average_double :: "8 word list \<Rightarrow> real" where
  "spec_average_double img =
     binary64 (sum_double 0 (map (spec_pair_contrast_double img) spec_sample_pairs)
               / real (length spec_sample_pairs))"

section \<open>The contour card detector\<close>

text \<open>
  \<^verbatim>\<open>estimateCardOpenCV\<close> works on objects of the vision engine that live until their
  \<^verbatim>\<open>delete()\<close> is called. The model lists the engine calls of the function body in source
  order; running the list keeps the handles that are live, and a call that throws ends
  the run there (the function has no \<^verbatim>\<open>try\<close>), the exception leaving for the caller.
\<close>

datatype cv_handle =
  H_src | H_gray | H_blur | H_edges | H_kernel | H_contours | H_hierarchy | H_cnt nat

datatype cv_call =
    Imread
  | NewMat cv_handle
  | GetStructuringElement
  | CvtColor
  | EqualizeHist
  | GaussianBlur
  | Canny "(real \<times> real) option"
  | Dilate
  | NewMatVector
  | FindContours
  | ContoursSize
  | ContoursGet nat
  | ContourArea nat
  | MinAreaRect nat

datatype instr =
    Alloc cv_handle cv_call  \<comment> \<open>a call whose result is a new engine object\<close>
  | Call cv_call
  | Delete cv_handle

text \<open>What the engine reports for one contour: \<^verbatim>\<open>cv.contourArea(cnt)\<close> and the size of
  \<^verbatim>\<open>cv.minAreaRect(cnt)\<close>.\<close>

record Contour =
  cnt_area :: real
  rr_width :: real
  rr_height :: real

record CvFrame =
  cvf_present :: bool  \<comment> \<open>\<^verbatim>\<open>window.cv\<close> is there\<close>
  cvf_ctx2d :: bool  \<comment> \<open>the offscreen canvas gives a 2D context\<close>
  cvf_throws :: "cv_call \<Rightarrow> bool"  \<comment> \<open>the engine calls that throw on this frame\<close>
  cvf_blur_data :: "8 word list"  \<comment> \<open>\<^verbatim>\<open>blur.data\<close>\<close>
  cvf_contours :: "Contour list"  \<comment> \<open>what \<^verbatim>\<open>findContours\<close> puts into \<^verbatim>\<open>contours\<close>\<close>

text \<open>The auto-Canny thresholds; the mean of an empty array is \<^verbatim>\<open>NaN\<close> (\<open>None\<close>).\<close>

definition autoCanny :: "8 word list \<Rightarrow> (real \<times> real) option" where
  "autoCanny data =
    (if data = [] then None
     else (let sum = (\<Sum>v \<leftarrow> data. byte v);
               mean = sum / real (length data);
               lower = max 10 (mean * 0.66);
               upper = min 255 (mean * 1.33)
           in Some (lower, upper)))"

definition prologue :: "CvFrame \<Rightarrow> instr list" where
  "prologue f =
    [Alloc H_src Imread,
     Alloc H_gray (NewMat H_gray),
     Alloc H_blur (NewMat H_blur),
     Alloc H_edges (NewMat H_edges),
     Alloc H_kernel GetStructuringElement,
     Call CvtColor,
     Call EqualizeHist,
     Call GaussianBlur,
     Call (Canny (autoCanny (cvf_blur_data f))),
     Call Dilate,
     Alloc H_contours NewMatVector,
     Alloc H_hierarchy (NewMat H_hierarchy),
     Call FindContours]"

text \<open>
  The \<^verbatim>\<open>for\<close> loop from index \<open>i\<close> on, over the contours not yet visited: the calls it
  makes and the final value of \<^verbatim>\<open>ok\<close>.
\<close>

fun contour_loop :: "real \<Rightarrow> nat \<Rightarrow> Contour list \<Rightarrow> instr list \<times> bool" where
  "contour_loop areaROI i [] = ([Call ContoursSize], False)"
| "contour_loop areaROI i (c # cs) =
    (let area = cnt_area c;
         fetch = [Call ContoursSize, Alloc (H_cnt i) (ContoursGet i), Call (ContourArea i)]
     in if area < areaROI * 0.05 then
          (case contour_loop areaROI (i + 1) cs of
             (rest, ok) \<Rightarrow> (fetch @ [Delete (H_cnt i)] @ rest, ok))
        else
          (let rectArea = rr_width c * rr_height c
           in if rectArea \<le> 0 then
                (case contour_loop areaROI (i + 1) cs of
                   (rest, ok) \<Rightarrow> (fetch @ [Call (MinAreaRect i), Delete (H_cnt i)] @ rest, ok))
              else
                (let major = max (rr_width c) (rr_height c);
                     minor = max 1 (min (rr_width c) (rr_height c));
                     ar = major / minor;
                     rectangularity = area / rectArea
                 in if rectArea > areaROI * 0.12 \<and> rectArea < areaROI * 0.98 \<and> ar > 1.35
                       \<and> ar < 1.9 \<and> rectangularity > 0.6
                    then (fetch @ [Call (MinAreaRect i), Delete (H_cnt i)], True)
                    else
                      (case contour_loop areaROI (i + 1) cs of
                         (rest, ok) \<Rightarrow>
                           (fetch @ [Call (MinAreaRect i), Delete (H_cnt i)] @ rest, ok)))))"

definition cleanup :: "instr list" where
  "cleanup =
    [Delete H_src, Delete H_gray, Delete H_blur, Delete H_edges, Delete H_contours,
     Delete H_hierarchy, Delete H_kernel]"

text \<open>Running the calls: whether one threw, and the handles live at the end.\<close>

fun exec :: "(cv_call \<Rightarrow> bool) \<Rightarrow> instr list \<Rightarrow> cv_handle list \<Rightarrow> bool \<times> cv_handle list" where
  "exec th [] live = (False, live)"
| "exec th (Alloc h c # rest) live = (if th c then (True, live) else exec th rest (live @ [h]))"
| "exec th (Call c # rest) live = (if th c then (True, live) else exec th rest live)"
| "exec th (Delete h # rest) live = exec th rest (removeAll h live)"

definition cv_outW :: int where
  "cv_outW = 540"

definition cv_outH :: int where
  "cv_outH = max 1 (round (real_of_int cv_outW / 1.586))"

definition cv_areaROI :: real where
  "cv_areaROI = real_of_int (cv_outW * cv_outH)"

text \<open>The result (or the exception) and the engine objects left alive.\<close>

definition estimateCardOpenCV :: "CvFrame \<Rightarrow> bool outcome \<times> cv_handle list" where
  "estimateCardOpenCV f =
    (if \<not> cvf_present f then (Returns False, [])
     else if \<not> cvf_ctx2d f then (Returns False, [])
     else
       (case contour_loop cv_areaROI 0 (cvf_contours f) of
          (loop, ok) \<Rightarrow>
            (case exec (cvf_throws f) (prologue f @ loop @ cleanup) [] of
               (threw, live) \<Rightarrow> (if threw then Throws else Returns ok, live))))"

text \<open>The contours the loop fetched with \<^verbatim>\<open>contours.get(i)\<close>.\<close>

fun fetched :: "instr list \<Rightarrow> nat list" where
  "fetched [] = []"
| "fetched (Alloc h (ContoursGet i) # rest) = i # fetched rest"
| "fetched (_ # rest) = fetched rest"

text \<open>
  The specification's wording of the acceptance rule, for comparison with the loop: a
  contour of at least 5% of the region's area whose rotated rectangle has an area
  strictly between 12% and 98% of it, an aspect ratio strictly between 1.35 and 1.9 and
  a rectangularity above 0.6.
\<close>

definition spec_card_like :: "real \<Rightarrow> Contour \<Rightarrow> bool" where
  "spec_card_like areaROI c \<longleftrightarrow>
     cnt_area c \<ge> 0.05 * areaROI
     \<and> 0.12 * areaROI < rr_width c * rr_height c
     \<and> rr_width c * rr_height c < 0.98 * areaROI
     \<and> 1.35 < max (rr_width c) (rr_height c) / max 1 (min (rr_width c) (rr_height c))
     \<and> max (rr_width c) (rr_height c) / max 1 (min (rr_width c) (rr_height c)) < 1.9
     \<and> cnt_area c / (rr_width c * rr_height c) > 0.6"

section \<open>Auxiliary definitions for the statements\<close>

text \<open>The mode selected by the user has reached \<^verbatim>\<open>overlayRef\<close>: the state after the effect
  \<^verbatim>\<open>overlayRef.current = overlay\<close> of the latest render that changed the mode.\<close>

definition overlay_committed :: "Component \<Rightarrow> bool" where
  "overlay_committed s \<longleftrightarrow> overlay_effect_dep s = Some (overlayRef s)"

text \<open>The video rectangle \<^verbatim>\<open>rv\<close> that the card branch of \<^verbatim>\<open>detectionTick\<close> hands to the
  card detectors.\<close>

definition card_roi :: "Mapping \<Rightarrow> Rect" where
  "card_roi mp = canvasRectToVideoRect (cardOverlayRectCanvas (m_cW mp) (m_cH mp)) mp"






text \<open>The engine calls of one loop iteration: the area test decides whether
  \<^verbatim>\<open>minAreaRect\<close> is reached.\<close>

definition visit :: "real \<Rightarrow> nat \<Rightarrow> Contour \<Rightarrow> instr list" where
  "visit A i c =
     [Call ContoursSize, Alloc (H_cnt i) (ContoursGet i), Call (ContourArea i)]
     @ (if cnt_area c < A * 0.05 then [] else [Call (MinAreaRect i)]) @ [Delete (H_cnt i)]"

declare edge_loop_rows.simps [simp del]

declare edge_loop_cols.simps [simp del]

subsection \<open>A concrete session\<close>

text \<open>
  The component opened in face mode with auto-capture after 5000 ms, on a 1080 x 1920
  canvas showing a 1440 x 2560 video; a tick on which the face detector reports a box
  whose centre the canvas reports inside the guide; a capture that succeeds.
\<close>

definition demo_props :: Props where
  "demo_props =
    \<lparr>p_faceModelsUrl = ''/models'', p_opencvUrl = ''/opencv/opencv.js'', p_isOpen = True,
     p_initialOverlay = Face, p_autoCapture = True, p_autoCaptureDelayMs = 5000\<rparr>"

definition framed_tick :: TickInput where
  "framed_tick =
    \<lparr>ti_video = True,
     ti_detectSingleFace =
       Returns (Some \<lparr>box_x = 520, box_y = 1080, box_width = 400, box_height = 400\<rparr>),
     ti_ctx = True, ti_isPointInPath = (\<lambda>p x y. True), ti_ensureOpenCV = Returns (),
     ti_isOpenCVReady = True, ti_estimateCardOpenCV = (\<lambda>r. Returns False),
     ti_estimateCardHeuristic = (\<lambda>k r. Returns False)\<rparr>"

definition demo_tick_closure :: detectionTick_closure where
  "demo_tick_closure =
    \<lparr>dt_autoCapture = False, dt_autoCaptureDelayMs = 5000, dt_opencvUrl = ''/opencv/opencv.js'',
     dt_capturePending = False\<rparr>"

definition demo_capture :: CaptureInput where
  "demo_capture = \<lparr>cap_video = True, cap_ctx = True, cap_dataUrl = ''data:image/jpeg;base64,''\<rparr>"

text \<open>Card-mode ticks: the contour detector throws and the heuristic accepts; every
  detector throws; the engine is not ready, the heuristic throws once and then accepts.\<close>

definition engine_throws_tick :: TickInput where
  "engine_throws_tick =
    framed_tick\<lparr>ti_estimateCardOpenCV := (\<lambda>r. Throws),
                ti_estimateCardHeuristic := (\<lambda>k r. Returns True)\<rparr>"

definition all_throw_tick :: TickInput where
  "all_throw_tick =
    framed_tick\<lparr>ti_estimateCardOpenCV := (\<lambda>r. Throws),
                ti_estimateCardHeuristic := (\<lambda>k r. Throws)\<rparr>"

definition not_ready_tick :: TickInput where
  "not_ready_tick =
    framed_tick\<lparr>ti_isOpenCVReady := False,
                ti_estimateCardHeuristic := (\<lambda>k r. if k = 0 then Throws else Returns True)\<rparr>"

definition demo_streaming :: Component where
  "demo_streaming =
    run [Playing, FaceModelsLoaded, AnimationFrame 1080 1920 1440 2560] (mount demo_props)"

definition demo_card_mode :: Component where
  "demo_card_mode =
    run [SelectOverlay Card, Render demo_props, AnimationFrame 1080 1920 1440 2560]
      demo_streaming"

text \<open>Frames for the contour detector: an engine that never throws and reports a speck,
  a square and two card-shaped contours; engines that throw.\<close>

definition demo_contours :: "Contour list" where
  "demo_contours =
    [\<lparr>cnt_area = 1000, rr_width = 40, rr_height = 30\<rparr>,
     \<lparr>cnt_area = 60000, rr_width = 250, rr_height = 250\<rparr>,
     \<lparr>cnt_area = 90000, rr_width = 390, rr_height = 245\<rparr>,
     \<lparr>cnt_area = 90000, rr_width = 245, rr_height = 390\<rparr>]"

definition demo_frame :: "(cv_call \<Rightarrow> bool) \<Rightarrow> CvFrame" where
  "demo_frame throws =
    \<lparr>cvf_present = True, cvf_ctx2d = True, cvf_throws = throws, cvf_blur_data = [],
     cvf_contours = demo_contours\<rparr>"

text \<open>
  Rasters for the heuristic detector: rows 0 to 201 black except row 2, which is white;
  all black except for the red channel of pixel \<open>(2, 2)\<close>. \<open>red_luma\<close> is the double
  \<^verbatim>\<open>0.299 * 255\<close> (76.24499999999999) and \<open>red_contrast\<close> the double \<^verbatim>\<open>0.299 * 255 / 255\<close>.
\<close>

definition white_row_image :: "8 word list" where
  "white_row_image = map (\<lambda>i. if 2560 \<le> i \<and> i < 3840 then 255 else 0) [0..<258560]"

definition red_pixel_image :: "8 word list" where
  "red_pixel_image = map (\<lambda>i. if i = 2568 then 255 else 0) [0..<258560]"

definition red_luma :: real where
  "red_luma = 5365264899825991 / 2 ^ 46"

definition red_contrast :: real where
  "red_contrast = 5386305154335113 / 2 ^ 54"

section \<open>Theorems\<close>

subsection \<open>Guide paths\<close>

lemma face_paths_equal_iff:
  "detectionTick_facePath cW cH = draw_guidePath Face cW cH \<longleftrightarrow> min cW cH = 0"
  by (auto simp add: detectionTick_facePath_def draw_guidePath_def faceSilhouettePath2D_def
      Let_def)

text \<open>
  Claim C1 says that the face guide path of the hit test in the detection tick is the
  path the render loop draws, for every canvas size. On a 1080 x 1920 canvas the two
  differ: \<^verbatim>\<open>draw\<close> passes the height \<open>min cW cH * 0.7 * 1.25\<close>, the tick passes
  \<open>min cW cH * 0.5 * 1.25\<close>, so the drawn outline starts at \<open>y = 435\<close> and the tested one
  at \<open>y = 585\<close>. By \<open>face_paths_equal_iff\<close> they agree only on an empty canvas.
\<close>

theorem face_hit_path_differs_from_drawn_path:
  "detectionTick_facePath 1080 1920 \<noteq> draw_guidePath Face 1080 1920
   \<and> hd (draw_guidePath Face 1080 1920) = MoveTo 540 435
   \<and> hd (detectionTick_facePath 1080 1920) = MoveTo 540 585"
  by (simp add: detectionTick_facePath_def draw_guidePath_def faceSilhouettePath2D_def Let_def)

subsection \<open>The cover-fit mapping and its inverse\<close>

lemma draw_mapping_scale_pos:
  assumes "0 < cW" "0 < cH"
  shows "0 < m_scale (draw_mapping cW cH vW vH cur)"
  using assms by (auto simp add: draw_mapping_def Let_def max_def field_simps)

lemma draw_mapping_cover:
  assumes "0 < cW" "0 < cH" and "m = draw_mapping cW cH vW vH cur"
  shows "m_cW m \<le> m_vw m * m_scale m" "m_cH m \<le> m_vh m * m_scale m"
    "0 < m_vw m" "0 < m_vh m"
    "m_dx m = of_int \<lfloor>(m_cW m - m_vw m * m_scale m) / 2\<rfloor>"
    "m_dy m = of_int \<lfloor>(m_cH m - m_vh m * m_scale m) / 2\<rfloor>"
  using assms by (auto simp add: draw_mapping_def Let_def max_def field_simps)

lemma floor_half_gt:
  fixes t :: real
  assumes "t \<le> 0"
  shows "t - 1 < of_int \<lfloor>t / 2\<rfloor>"
proof -
  have "t / 2 - 1 < of_int \<lfloor>t / 2\<rfloor>" by linarith
  moreover have "t - 1 \<le> t / 2 - 1" using assms by simp
  ultimately show ?thesis by linarith
qed

text \<open>The clamps of \<^verbatim>\<open>canvasRectToVideoRect\<close> give these four bounds and no more.\<close>

lemma canvasRectToVideoRect_clamps:
  "0 \<le> rect_x (canvasRectToVideoRect rc m) \<and> 0 \<le> rect_y (canvasRectToVideoRect rc m)
   \<and> rect_w (canvasRectToVideoRect rc m) \<le> m_vw m
   \<and> rect_h (canvasRectToVideoRect rc m) \<le> m_vh m"
  by (simp add: canvasRectToVideoRect_def Let_def)

text \<open>
  A canvas rectangle that keeps one pixel clear of the right and bottom canvas edges
  is mapped into the video raster; the pixel is what \<^verbatim>\<open>Math.floor\<close> in the offsets
  \<^verbatim>\<open>dx, dy\<close> can cost.
\<close>

lemma canvasRectToVideoRect_inside_with_margin:
  assumes cw: "0 < cW" and ch: "0 < cH" and m: "m = draw_mapping cW cH vW vH cur"
    and rc: "0 \<le> rect_x rc" "0 \<le> rect_y rc" "0 \<le> rect_w rc" "0 \<le> rect_h rc"
      "rect_x rc + rect_w rc \<le> m_cW m - 1" "rect_y rc + rect_h rc \<le> m_cH m - 1"
  shows "inside_video (canvasRectToVideoRect rc m) m"
proof -
  have sc: "0 < m_scale m"
    using draw_mapping_scale_pos[OF cw ch] m by simp
  note cov = draw_mapping_cover[OF cw ch m]
  define tx where "tx = m_cW m - m_vw m * m_scale m"
  define ty where "ty = m_cH m - m_vh m * m_scale m"
  have tx0: "tx \<le> 0" and ty0: "ty \<le> 0"
    using cov by (simp_all add: tx_def ty_def)
  have dxl: "tx - 1 < m_dx m" "m_dx m \<le> 0"
    using floor_half_gt[OF tx0] cov(5) tx0 by (auto simp add: tx_def)
  have dyl: "ty - 1 < m_dy m" "m_dy m \<le> 0"
    using floor_half_gt[OF ty0] cov(6) ty0 by (auto simp add: ty_def)
  have X: "rect_x rc + rect_w rc - m_dx m \<le> m_vw m * m_scale m"
    using dxl rc by (simp add: tx_def)
  have Y: "rect_y rc + rect_h rc - m_dy m \<le> m_vh m * m_scale m"
    using dyl rc by (simp add: ty_def)
  have X': "(rect_x rc - m_dx m) / m_scale m + rect_w rc / m_scale m \<le> m_vw m"
    using X sc by (simp add: field_simps)
  have Y': "(rect_y rc - m_dy m) / m_scale m + rect_h rc / m_scale m \<le> m_vh m"
    using Y sc by (simp add: field_simps)
  have px: "0 \<le> (rect_x rc - m_dx m) / m_scale m"
    using dxl rc sc by simp
  have py: "0 \<le> (rect_y rc - m_dy m) / m_scale m"
    using dyl rc sc by simp
  have pw: "0 \<le> rect_w rc / m_scale m" "0 \<le> rect_h rc / m_scale m"
    using rc sc by simp_all
  show ?thesis
    unfolding inside_video_def canvasRectToVideoRect_def Let_def
    using X' Y' px py pw cov(3,4)
    by (auto simp add: max_def min_def)
qed

text \<open>
  Claim C2 says that every canvas rectangle inside the canvas is mapped by
  \<^verbatim>\<open>canvasRectToVideoRect\<close> to a rectangle inside the video raster (\<open>x \<ge> 0\<close>, \<open>y \<ge> 0\<close>,
  \<open>x + w \<le> vw\<close>, \<open>y + h \<le> vh\<close>). The function clamps the size to \<open>vw, vh\<close> and not to
  \<open>vw - x, vh - y\<close>. On a 400 x 711 canvas showing a 1080 x 1920 video in card mode the
  mapping of \<^verbatim>\<open>draw\<close> has \<open>scale = 10/27\<close>, \<open>dx = 0\<close>, \<open>dy = -1\<close>; the canvas rectangle
  \<open>(50, 600, 300, 111)\<close>, which ends on the bottom canvas edge, is mapped to a rectangle
  whose bottom \<open>1622.7 + 299.7 = 1922.4\<close> lies below the video height 1920.
\<close>

theorem crop_exceeds_video_bounds:
  "draw_mapping 400 711 1080 1920 Card =
     \<lparr>m_cW = 400, m_cH = 711, m_vw = 1080, m_vh = 1920, m_scale = 10 / 27, m_dx = 0,
      m_dy = - 1, m_mirrored = False\<rparr>
   \<and> canvasRectToVideoRect \<lparr>rect_x = 50, rect_y = 600, rect_w = 300, rect_h = 111\<rparr>
       (draw_mapping 400 711 1080 1920 Card) =
     \<lparr>rect_x = 135, rect_y = 16227 / 10, rect_w = 810, rect_h = 2997 / 10\<rparr>
   \<and> \<not> inside_video
         (canvasRectToVideoRect \<lparr>rect_x = 50, rect_y = 600, rect_w = 300, rect_h = 111\<rparr>
           (draw_mapping 400 711 1080 1920 Card))
         (draw_mapping 400 711 1080 1920 Card)"
  by (simp add: draw_mapping_def canvasRectToVideoRect_def inside_video_def Let_def)

text \<open>
  The same happens on the path of \<^verbatim>\<open>detectionTick\<close> itself: on a 1000 x 631 canvas
  showing a 640 x 404 video the card guide rectangle lies inside the canvas, and the crop
  computed from it ends at \<open>y + h = 404.34...\<close>, below the video height 404.
\<close>

lemma card_roi_exceeds_video_bounds:
  "0 \<le> rect_x (cardOverlayRectCanvas 1000 631) \<and> 0 \<le> rect_y (cardOverlayRectCanvas 1000 631)
   \<and> rect_x (cardOverlayRectCanvas 1000 631) + rect_w (cardOverlayRectCanvas 1000 631) \<le> 1000
   \<and> rect_y (cardOverlayRectCanvas 1000 631) + rect_h (cardOverlayRectCanvas 1000 631) \<le> 631
   \<and> \<not> inside_video
         (canvasRectToVideoRect (cardOverlayRectCanvas 1000 631)
           (draw_mapping 1000 631 640 404 Card))
         (draw_mapping 1000 631 640 404 Card)"
  by (simp add: draw_mapping_def canvasRectToVideoRect_def cardOverlayRectCanvas_def
      inside_video_def Let_def)

text \<open>
  Claim C7: a rectangle inside the video raster, placed on the canvas by the cover-fit
  transform and mapped back by \<^verbatim>\<open>canvasRectToVideoRect\<close>, comes back unchanged (in exact
  arithmetic, so within every rounding tolerance), for a mapping that is not mirrored
  and for a mirrored one; under a mirrored mapping a rectangle at the left video edge
  is placed with its right side on the right edge of the drawn video, \<open>dx + vw * scale\<close>.
\<close>

theorem round_trip_canvas_video:
  assumes "0 < m_scale m" and "inside_video r m"
  shows "canvasRectToVideoRect (videoRectToCanvasRect r m) m = r
     \<and> (m_mirrored m \<and> rect_x r = 0 \<longrightarrow>
          rect_x (videoRectToCanvasRect r m) + rect_w (videoRectToCanvasRect r m)
            = m_dx m + m_vw m * m_scale m)"
  using assms
  by (simp add: canvasRectToVideoRect_def videoRectToCanvasRect_def inside_video_def Let_def
      field_simps)

lemma draw_mapping_face_1080:
  "draw_mapping 1080 1920 1440 2560 Face =
     \<lparr>m_cW = 1080, m_cH = 1920, m_vw = 1440, m_vh = 2560, m_scale = 3 / 4, m_dx = 0,
      m_dy = 0, m_mirrored = True\<rparr>"
  by (simp add: draw_mapping_def Let_def)

lemma draw_mapping_card_1080:
  "draw_mapping 1080 1920 1440 2560 Card =
     \<lparr>m_cW = 1080, m_cH = 1920, m_vw = 1440, m_vh = 2560, m_scale = 3 / 4, m_dx = 0,
      m_dy = 0, m_mirrored = False\<rparr>"
  by (simp add: draw_mapping_def Let_def)

theorem round_trip_canvas_video_witness:
  "videoRectToCanvasRect \<lparr>rect_x = 0, rect_y = 100, rect_w = 400, rect_h = 200\<rparr>
      (draw_mapping 1080 1920 1440 2560 Face)
     = \<lparr>rect_x = 780, rect_y = 75, rect_w = 300, rect_h = 150\<rparr>
   \<and> canvasRectToVideoRect \<lparr>rect_x = 780, rect_y = 75, rect_w = 300, rect_h = 150\<rparr>
      (draw_mapping 1080 1920 1440 2560 Face)
     = \<lparr>rect_x = 0, rect_y = 100, rect_w = 400, rect_h = 200\<rparr>
   \<and> canvasRectToVideoRect
      (videoRectToCanvasRect \<lparr>rect_x = 0, rect_y = 100, rect_w = 400, rect_h = 200\<rparr>
        (draw_mapping 1080 1920 1440 2560 Card))
      (draw_mapping 1080 1920 1440 2560 Card)
     = \<lparr>rect_x = 0, rect_y = 100, rect_w = 400, rect_h = 200\<rparr>"
  using
    round_trip_canvas_video [of "draw_mapping 1080 1920 1440 2560 Face"
      "\<lparr>rect_x = 0, rect_y = 100, rect_w = 400, rect_h = 200\<rparr>"]
    round_trip_canvas_video [of "draw_mapping 1080 1920 1440 2560 Card"
      "\<lparr>rect_x = 0, rect_y = 100, rect_w = 400, rect_h = 200\<rparr>"]
  by (simp add: draw_mapping_face_1080 draw_mapping_card_1080 inside_video_def
      videoRectToCanvasRect_def)

subsection \<open>Session, close and auto-capture\<close>

lemmas session_defs =
  run_def mount_def render_def demo_props_def framed_tick_def demo_capture_def onPlaying_def
  draw_def detectionTick_def detect_face_def detect_card_def card_detect_def
  autoCapture_arm_def timeout_fires_def capture_def Let_def demo_streaming_def is_open_def
  close_def stopStream_def

lemma stopStream_frame [simp]:
  "timeouts (stopStream s) = timeouts s" "onCapture_calls (stopStream s) = onCapture_calls s"
  "capture_calls (stopStream s) = capture_calls s" "faceInsideRef (stopStream s) = faceInsideRef s"
  "cardOkRef (stopStream s) = cardOkRef s" "overlayRef (stopStream s) = overlayRef s"
  "open_effect_deps (stopStream s) = open_effect_deps s" "\<not> isStreaming (stopStream s)"
  by (simp_all add: stopStream_def Let_def)

lemma render_frame:
  "timeouts (render p s) = timeouts s" "onCapture_calls (render p s) = onCapture_calls s"
  "capture_calls (render p s) = capture_calls s" "faceInsideRef (render p s) = faceInsideRef s"
  "cardOkRef (render p s) = cardOkRef s"
  by (simp_all add: render_def Let_def split: option.split prod.split)

lemma render_overlayRef:
  "overlayRef (render p s) =
     (if overlay_effect_dep s = Some (overlay s) then overlayRef s else overlay s)"
  by (simp add: render_def Let_def split: option.split prod.split)

lemma render_closes:
  assumes "is_open s" "\<not> p_isOpen p"
  shows "\<not> isStreaming (render p s)" "\<not> is_open (render p s)"
  using assms by (simp_all add: render_def is_open_def Let_def split: option.splits prod.splits)

lemma timeout_fires_armed:
  assumes "timeouts s = d # rest"
  shows "capture_calls (timeout_fires ci s)
         = capture_calls s
           + (if (if overlayRef s = Face then faceInsideRef s else cardOkRef s) then 1 else 0)"
    "onCapture_calls (timeout_fires ci s)
         = onCapture_calls s
           @ (if (if overlayRef s = Face then faceInsideRef s else cardOkRef s)
                 \<and> cap_video ci \<and> cap_ctx ci
              then [Some (cap_dataUrl ci)] else [])"
    "timeouts (timeout_fires ci s) = rest" "\<not> capturePending (timeout_fires ci s)"
  using assms by (simp_all add: timeout_fires_def capture_def Let_def)

text \<open>
  Claim C3 says that while a timer is armed a further tick with a true fused boolean
  schedules no second timer, and that a boolean staying true yields exactly one capture.
  The guard \<^verbatim>\<open>!capturePending\<close> of \<^verbatim>\<open>detectionTick\<close> reads the \<^verbatim>\<open>capturePending\<close> of the
  render in which the callback was created; \<^verbatim>\<open>capturePending\<close> is not in the dependency
  list of its \<^verbatim>\<open>useCallback\<close>, and the interval keeps calling the function it was given.
  In the session below the first framed tick arms a timer and sets the state to true;
  after the re-render the second framed tick arms a second timer, and both re-checks
  capture.
\<close>

theorem second_framed_tick_arms_second_timer:
  "timeouts (run [IntervalTick framed_tick, Render demo_props] demo_streaming) = [5000]
   \<and> capturePending (run [IntervalTick framed_tick, Render demo_props] demo_streaming)
   \<and> timeouts
        (run [IntervalTick framed_tick, Render demo_props,
              IntervalTick framed_tick, Render demo_props] demo_streaming) = [5000, 5000]
   \<and> onCapture_calls
        (run [IntervalTick framed_tick, Render demo_props,
              IntervalTick framed_tick, Render demo_props,
              TimeoutFires demo_capture, Render demo_props,
              TimeoutFires demo_capture, Render demo_props] demo_streaming)
      = [Some ''data:image/jpeg;base64,'', Some ''data:image/jpeg;base64,'']"
  by (simp add: session_defs)

text \<open>
  Claim C4 says that a tick on which the active detector finds no candidate or throws
  sets the mode's flag to false. A throwing face detector call leaves through the empty
  \<^verbatim>\<open>catch\<close> before the flag is written: after a framed tick the flag is true, and it is
  still true after a tick whose detector call throws.
\<close>

theorem throwing_tick_keeps_flag_counterexample:
  "faceInsideRef (run [IntervalTick framed_tick] demo_streaming)
   \<and> faceInsideRef
        (run [IntervalTick framed_tick,
              IntervalTick (framed_tick\<lparr>ti_detectSingleFace := Throws\<rparr>)] demo_streaming)"
  by (simp add: session_defs)

text \<open>
  Claim C4 as amended: on a tick that runs (the mapping is published, the video element
  is there), in face mode with the models loaded a detector call that returns no box,
  or a box while the canvas gives no context, sets \<^verbatim>\<open>faceInsideRef\<close> to false, and a call
  that throws leaves it as it was. In card mode \<^verbatim>\<open>cardOkRef\<close> is overwritten with the
  verdict of the contour detector when the engine loads, is ready and the detector
  returns; with the verdict of the heuristic detector when the engine fails to load or
  the contour detector throws, and when the engine is not ready (the heuristic is then
  tried a second time if it throws); so a verdict of false sets the flag to false.
  When the heuristic detector throws as well, the flag is left as it was.
\<close>

theorem detectionTick_flag_update:
  assumes "mappingRef s = Some mp" and "ti_video ti"
  shows
   "(overlayRef s = Face \<and> faceModelsLoadedRef s \<and> ti_detectSingleFace ti = Returns None
        \<longrightarrow> \<not> faceInsideRef (detectionTick c ti s))
    \<and> (overlayRef s = Face \<and> faceModelsLoadedRef s \<and> ti_detectSingleFace ti = Returns (Some b)
         \<and> \<not> ti_ctx ti
        \<longrightarrow> \<not> faceInsideRef (detectionTick c ti s))
    \<and> (overlayRef s = Face \<and> faceModelsLoadedRef s \<and> ti_detectSingleFace ti = Throws
        \<longrightarrow> faceInsideRef (detectionTick c ti s) = faceInsideRef s)
    \<and> (overlayRef s = Card \<and> ti_ensureOpenCV ti = Returns () \<and> ti_isOpenCVReady ti
         \<and> ti_estimateCardOpenCV ti (card_roi mp) = Returns v1
        \<longrightarrow> cardOkRef (detectionTick c ti s) = v1)
    \<and> (overlayRef s = Card
         \<and> (ti_ensureOpenCV ti = Throws
              \<or> ti_isOpenCVReady ti \<and> ti_estimateCardOpenCV ti (card_roi mp) = Throws)
         \<and> ti_estimateCardHeuristic ti 0 (card_roi mp) = Returns v2
        \<longrightarrow> cardOkRef (detectionTick c ti s) = v2)
    \<and> (overlayRef s = Card
         \<and> (ti_ensureOpenCV ti = Throws
              \<or> ti_isOpenCVReady ti \<and> ti_estimateCardOpenCV ti (card_roi mp) = Throws)
         \<and> ti_estimateCardHeuristic ti 0 (card_roi mp) = Throws
        \<longrightarrow> cardOkRef (detectionTick c ti s) = cardOkRef s)
    \<and> (overlayRef s = Card \<and> ti_ensureOpenCV ti = Returns () \<and> \<not> ti_isOpenCVReady ti
         \<and> ti_estimateCardHeuristic ti 0 (card_roi mp) = Returns v3
        \<longrightarrow> cardOkRef (detectionTick c ti s) = v3)
    \<and> (overlayRef s = Card \<and> ti_ensureOpenCV ti = Returns () \<and> \<not> ti_isOpenCVReady ti
         \<and> ti_estimateCardHeuristic ti 0 (card_roi mp) = Throws
         \<and> ti_estimateCardHeuristic ti 1 (card_roi mp) = Returns v4
        \<longrightarrow> cardOkRef (detectionTick c ti s) = v4)
    \<and> (overlayRef s = Card \<and> ti_ensureOpenCV ti = Returns () \<and> \<not> ti_isOpenCVReady ti
         \<and> ti_estimateCardHeuristic ti 0 (card_roi mp) = Throws
         \<and> ti_estimateCardHeuristic ti 1 (card_roi mp) = Throws
        \<longrightarrow> cardOkRef (detectionTick c ti s) = cardOkRef s)"
proof -
  have flags: "faceInsideRef (autoCapture_arm c t) = faceInsideRef t"
    "cardOkRef (autoCapture_arm c t) = cardOkRef t" for t
    by (simp_all add: autoCapture_arm_def Let_def)
  have tick: "detectionTick c ti s =
      autoCapture_arm c
        (if overlayRef s = Face \<and> faceModelsLoadedRef s then detect_face ti mp s
         else if overlayRef s = Card then detect_card ti mp s else s)"
    using assms by (simp add: detectionTick_def Let_def)
  have none: "ti_detectSingleFace ti = Returns None \<Longrightarrow> \<not> faceInsideRef (detect_face ti mp s)"
    by (simp add: detect_face_def Let_def)
  have noctx: "ti_detectSingleFace ti = Returns (Some b) \<Longrightarrow> \<not> ti_ctx ti
      \<Longrightarrow> \<not> faceInsideRef (detect_face ti mp s)"
    by (simp add: detect_face_def Let_def)
  have throws: "ti_detectSingleFace ti = Throws \<Longrightarrow> detect_face ti mp s = s"
    by (simp add: detect_face_def)
  have card: "cardOkRef (detect_card ti mp s) =
      (case card_detect ti (card_roi mp) of Throws \<Rightarrow> cardOkRef s | Returns r \<Rightarrow> r)"
    by (simp add: detect_card_def card_roi_def Let_def split: outcome.split)
  have cv: "ti_ensureOpenCV ti = Returns () \<Longrightarrow> ti_isOpenCVReady ti
      \<Longrightarrow> ti_estimateCardOpenCV ti (card_roi mp) = Returns v1
      \<Longrightarrow> card_detect ti (card_roi mp) = Returns v1"
    by (simp add: card_detect_def)
  have fb: "ti_ensureOpenCV ti = Throws
              \<or> ti_isOpenCVReady ti \<and> ti_estimateCardOpenCV ti (card_roi mp) = Throws
      \<Longrightarrow> card_detect ti (card_roi mp) = ti_estimateCardHeuristic ti 0 (card_roi mp)"
    by (auto simp add: card_detect_def split: outcome.split)
  have nr: "ti_ensureOpenCV ti = Returns () \<Longrightarrow> \<not> ti_isOpenCVReady ti
      \<Longrightarrow> card_detect ti (card_roi mp) =
          (case ti_estimateCardHeuristic ti 0 (card_roi mp) of
             Throws \<Rightarrow> ti_estimateCardHeuristic ti 1 (card_roi mp)
           | Returns r \<Rightarrow> Returns r)"
    by (simp add: card_detect_def)
  show ?thesis
    using none noctx throws cv fb nr
    by (auto simp add: tick flags card)
qed

theorem detectionTick_flag_update_witness:
  "\<not> faceInsideRef
       (detectionTick demo_tick_closure (framed_tick\<lparr>ti_detectSingleFace := Returns None\<rparr>)
          (run [IntervalTick framed_tick] demo_streaming))
   \<and> faceInsideRef
       (detectionTick demo_tick_closure (framed_tick\<lparr>ti_detectSingleFace := Throws\<rparr>)
          (run [IntervalTick framed_tick] demo_streaming))
   \<and> cardOkRef (detectionTick demo_tick_closure engine_throws_tick demo_card_mode)
   \<and> cardOkRef
       (detectionTick demo_tick_closure all_throw_tick
          (detectionTick demo_tick_closure engine_throws_tick demo_card_mode))
   \<and> \<not> cardOkRef
       (detectionTick demo_tick_closure framed_tick
          (detectionTick demo_tick_closure engine_throws_tick demo_card_mode))
   \<and> cardOkRef (detectionTick demo_tick_closure not_ready_tick demo_card_mode)"
  using
    detectionTick_flag_update [where s = "run [IntervalTick framed_tick] demo_streaming"
      and mp = "draw_mapping 1080 1920 1440 2560 Face"
      and ti = "framed_tick\<lparr>ti_detectSingleFace := Returns None\<rparr>" and c = demo_tick_closure]
    detectionTick_flag_update [where s = "run [IntervalTick framed_tick] demo_streaming"
      and mp = "draw_mapping 1080 1920 1440 2560 Face"
      and ti = "framed_tick\<lparr>ti_detectSingleFace := Throws\<rparr>" and c = demo_tick_closure]
    detectionTick_flag_update [where s = demo_card_mode
      and mp = "draw_mapping 1080 1920 1440 2560 Card"
      and ti = engine_throws_tick and c = demo_tick_closure and ?v2.0 = True]
    detectionTick_flag_update
      [where s = "detectionTick demo_tick_closure engine_throws_tick demo_card_mode"
      and mp = "draw_mapping 1080 1920 1440 2560 Card"
      and ti = all_throw_tick and c = demo_tick_closure]
    detectionTick_flag_update
      [where s = "detectionTick demo_tick_closure engine_throws_tick demo_card_mode"
      and mp = "draw_mapping 1080 1920 1440 2560 Card"
      and ti = framed_tick and c = demo_tick_closure and ?v1.0 = False]
    detectionTick_flag_update [where s = demo_card_mode
      and mp = "draw_mapping 1080 1920 1440 2560 Card"
      and ti = not_ready_tick and c = demo_tick_closure and ?v4.0 = True]
  by (simp add: session_defs demo_card_mode_def engine_throws_tick_def all_throw_tick_def
      not_ready_tick_def card_roi_def)










lemma autoCapture_arm_overlay:
  "overlayRef (autoCapture_arm c s) = overlayRef s"
  "overlay_effect_dep (autoCapture_arm c s) = overlay_effect_dep s"
  by (simp_all add: autoCapture_arm_def Let_def)

lemma detect_face_overlay:
  "overlayRef (detect_face ti mp s) = overlayRef s"
  "overlay_effect_dep (detect_face ti mp s) = overlay_effect_dep s"
  by (simp_all add: detect_face_def Let_def split: outcome.split option.split)

lemma detect_card_overlay:
  "overlayRef (detect_card ti mp s) = overlayRef s"
  "overlay_effect_dep (detect_card ti mp s) = overlay_effect_dep s"
  by (simp_all add: detect_card_def Let_def split: outcome.split)

lemma detectionTick_overlay:
  "overlayRef (detectionTick c ti s) = overlayRef s"
  "overlay_effect_dep (detectionTick c ti s) = overlay_effect_dep s"
  by (simp_all add: detectionTick_def Let_def autoCapture_arm_overlay detect_face_overlay
      detect_card_overlay split: option.split)

lemma timeout_fires_overlay:
  "overlayRef (timeout_fires ci s) = overlayRef s"
  "overlay_effect_dep (timeout_fires ci s) = overlay_effect_dep s"
  by (simp_all add: timeout_fires_def capture_def Let_def split: list.split)

lemma render_overlay_committed: "overlay_committed s \<Longrightarrow> overlay_committed (render p s)"
  by (simp add: overlay_committed_def render_def Let_def stopStream_def
      split: option.split prod.split)

lemma step_overlay_committed:
  assumes "overlay_committed s"
  shows "overlay_committed (step e s)"
proof (cases e)
  case (Render p)
  then show ?thesis using assms by (simp add: render_overlay_committed)
next
  case (IntervalTick ti)
  then show ?thesis using assms
    by (simp add: overlay_committed_def detectionTick_overlay split: option.split)
next
  case (TimeoutFires ci)
  then show ?thesis using assms by (simp add: overlay_committed_def timeout_fires_overlay)
qed (use assms in \<open>simp_all add: overlay_committed_def onPlaying_def draw_def close_def
    stopStream_def capture_def Let_def split: option.split\<close>)

lemma mount_overlay_committed: "overlay_committed (mount p)"
  by (simp add: overlay_committed_def mount_def render_def Let_def stopStream_def
      split: option.split prod.split)

text \<open>Every state a session reaches has the selected mode committed to \<^verbatim>\<open>overlayRef\<close>.\<close>

lemma run_overlay_committed: "overlay_committed (run es (mount p))"
proof -
  have "overlay_committed s \<Longrightarrow> overlay_committed (fold step es s)" for s
    by (induction es arbitrary: s) (simp_all add: step_overlay_committed)
  then show ?thesis
    by (simp add: run_def mount_overlay_committed)
qed

text \<open>
  Claim C10: in a reachable state (open, the mode committed) selecting another guide
  mode while a re-check is pending cancels nothing;
  after the re-render has written the mode to \<^verbatim>\<open>overlayRef\<close> the timer is still pending,
  and when it fires \<^verbatim>\<open>capture\<close> is invoked exactly when the flag of the mode selected by
  then is true (and the callback receives the image when the capture succeeds).
\<close>

theorem mode_change_keeps_pending_recheck:
  assumes "is_open s" and "overlay_committed s" and "timeouts s = d # rest"
  shows "timeouts (step (Render p) (step (SelectOverlay v) s)) = d # rest
     \<and> overlayRef (step (Render p) (step (SelectOverlay v) s)) = v
     \<and> capture_calls (step (TimeoutFires ci) (step (Render p) (step (SelectOverlay v) s)))
         = capture_calls s + (if (if v = Face then faceInsideRef s else cardOkRef s) then 1 else 0)
     \<and> onCapture_calls (step (TimeoutFires ci) (step (Render p) (step (SelectOverlay v) s)))
         = onCapture_calls s
           @ (if (if v = Face then faceInsideRef s else cardOkRef s) \<and> cap_video ci \<and> cap_ctx ci
              then [Some (cap_dataUrl ci)] else [])
     \<and> timeouts (step (TimeoutFires ci) (step (Render p) (step (SelectOverlay v) s))) = rest"
proof -
  let ?s' = "render p (s\<lparr>overlay := v\<rparr>)"
  have t: "timeouts ?s' = d # rest"
    using assms(3) by (simp add: render_frame)
  have o: "overlayRef ?s' = v"
    using assms(2) by (auto simp add: render_overlayRef overlay_committed_def)
  show ?thesis
    using assms(1) t o timeout_fires_armed[OF t, of ci]
    by (simp add: render_frame)
qed

theorem mode_change_keeps_pending_recheck_witness:
  "timeouts
     (run [IntervalTick framed_tick, Render demo_props, SelectOverlay Card, Render demo_props]
        demo_streaming) = [5000]
   \<and> capture_calls
       (run [IntervalTick framed_tick, Render demo_props, SelectOverlay Card, Render demo_props,
             TimeoutFires demo_capture] demo_streaming) = 0
   \<and> capture_calls
       (run [IntervalTick framed_tick, Render demo_props, SelectOverlay Face, Render demo_props,
             TimeoutFires demo_capture] demo_streaming) = 1"
  using
    mode_change_keeps_pending_recheck
      [of "run [IntervalTick framed_tick, Render demo_props] demo_streaming" 5000 "[]"
          demo_props Card demo_capture]
    mode_change_keeps_pending_recheck
      [of "run [IntervalTick framed_tick, Render demo_props] demo_streaming" 5000 "[]"
          demo_props Face demo_capture]
  by (simp add: session_defs overlay_committed_def)

subsection \<open>The contour card detector\<close>

lemma exec_append:
  "exec th (xs @ ys) live =
     (case exec th xs live of (threw, l) \<Rightarrow> if threw then (True, l) else exec th ys l)"
  by (induction th xs live rule: exec.induct) auto

lemma spec_card_like_iff:
  assumes "0 < A"
  shows "spec_card_like A c \<longleftrightarrow>
     \<not> cnt_area c < A * 0.05 \<and> \<not> rr_width c * rr_height c \<le> 0
     \<and> rr_width c * rr_height c > A * 0.12 \<and> rr_width c * rr_height c < A * 0.98
     \<and> max (rr_width c) (rr_height c) / max 1 (min (rr_width c) (rr_height c)) > 1.35
     \<and> max (rr_width c) (rr_height c) / max 1 (min (rr_width c) (rr_height c)) < 1.9
     \<and> cnt_area c / (rr_width c * rr_height c) > 0.6"
proof -
  define R where "R = rr_width c * rr_height c"
  define ar where "ar = max (rr_width c) (rr_height c) / max 1 (min (rr_width c) (rr_height c))"
  define q where "q = cnt_area c / R"
  have "0 < A * 0.12"
    using assms by simp
  then have pos: "A * 0.12 < R \<Longrightarrow> \<not> R \<le> 0"
    by linarith
  have a: "cnt_area c \<ge> 0.05 * A \<longleftrightarrow> \<not> cnt_area c < A * 0.05"
    by auto
  have b: "0.12 * A < R \<longleftrightarrow> R > A * 0.12" "R < 0.98 * A \<longleftrightarrow> R < A * 0.98"
    by auto
  have "spec_card_like A c \<longleftrightarrow>
     cnt_area c \<ge> 0.05 * A \<and> 0.12 * A < R \<and> R < 0.98 * A \<and> 1.35 < ar \<and> ar < 1.9 \<and> q > 0.6"
    unfolding spec_card_like_def R_def ar_def q_def by (rule refl)
  also have "\<dots> \<longleftrightarrow> \<not> cnt_area c < A * 0.05 \<and> \<not> R \<le> 0 \<and> R > A * 0.12 \<and> R < A * 0.98
      \<and> ar > 1.35 \<and> ar < 1.9 \<and> q > 0.6"
    unfolding a b using pos by blast
  finally show ?thesis
    unfolding R_def ar_def q_def .
qed

lemma contour_loop_Cons:
  assumes "0 < A"
  shows "contour_loop A i (c # cs) =
     (if spec_card_like A c then (visit A i c, True)
      else (visit A i c @ fst (contour_loop A (Suc i) cs), snd (contour_loop A (Suc i) cs)))"
proof -
  obtain rest ok where r: "contour_loop A (Suc i) cs = (rest, ok)"
    by (cases "contour_loop A (Suc i) cs")
  note iff = spec_card_like_iff[OF assms, of c]
  consider (small) "cnt_area c < A * 0.05"
    | (flat) "\<not> cnt_area c < A * 0.05" "rr_width c * rr_height c \<le> 0"
    | (test) "\<not> cnt_area c < A * 0.05" "\<not> rr_width c * rr_height c \<le> 0"
    by blast
  then show ?thesis
  proof cases
    case small
    then have "\<not> spec_card_like A c" using iff by blast
    then show ?thesis using small by (simp add: Let_def visit_def r)
  next
    case flat
    then have "\<not> spec_card_like A c" using iff by blast
    then show ?thesis using flat by (simp add: Let_def visit_def r)
  next
    case test
    define t where "t \<longleftrightarrow> rr_width c * rr_height c > A * 0.12 \<and> rr_width c * rr_height c < A * 0.98
       \<and> max (rr_width c) (rr_height c) / max 1 (min (rr_width c) (rr_height c)) > 1.35
       \<and> max (rr_width c) (rr_height c) / max 1 (min (rr_width c) (rr_height c)) < 1.9
       \<and> cnt_area c / (rr_width c * rr_height c) > 0.6"
    have s: "spec_card_like A c \<longleftrightarrow> t"
      using iff test unfolding t_def by blast
    have "contour_loop A i (c # cs) =
       (if t then ([Call ContoursSize, Alloc (H_cnt i) (ContoursGet i), Call (ContourArea i),
                    Call (MinAreaRect i), Delete (H_cnt i)], True)
        else ([Call ContoursSize, Alloc (H_cnt i) (ContoursGet i), Call (ContourArea i),
                    Call (MinAreaRect i), Delete (H_cnt i)] @ rest, ok))"
      using test unfolding t_def by (simp add: Let_def r)
    then show ?thesis
      using test by (simp add: s visit_def r)
  qed
qed

lemma exec_visit:
  assumes "\<And>c. \<not> th c" and "H_cnt i \<notin> set live"
  shows "exec th (visit A i c) live = (False, live)"
  using assms by (simp add: visit_def)

lemma exec_contour_loop:
  assumes A: "0 < A" and th: "\<And>c. \<not> th c" and live: "\<And>j. H_cnt j \<notin> set live"
  shows "exec th (fst (contour_loop A i cs)) live = (False, live)"
proof (induction cs arbitrary: i)
  case Nil
  show ?case using th by simp
next
  case (Cons c cs)
  show ?case
    using Cons[of "Suc i"] exec_visit[of th i live A c, OF th live]
    by (simp add: contour_loop_Cons[OF A] exec_append del: contour_loop.simps(2))
qed

lemma exec_prologue:
  assumes "\<And>c. \<not> th c"
  shows "exec th (prologue f) [] = (False, [H_src, H_gray, H_blur, H_edges, H_kernel, H_contours, H_hierarchy])"
  using assms by (simp add: prologue_def)

lemma exec_cleanup:
  "exec th cleanup [H_src, H_gray, H_blur, H_edges, H_kernel, H_contours, H_hierarchy] = (False, [])"
  by (simp add: cleanup_def)

lemma cv_areaROI_value: "cv_areaROI = 183600"
  by (simp add: cv_areaROI_def cv_outH_def cv_outW_def round_def) 

lemma estimateCardOpenCV_no_throw:
  assumes th: "\<And>c. \<not> cvf_throws f c" and "cvf_present f" and "cvf_ctx2d f"
  shows "estimateCardOpenCV f = (Returns (snd (contour_loop cv_areaROI 0 (cvf_contours f))), [])"
proof -
  obtain loop ok where lo: "contour_loop cv_areaROI 0 (cvf_contours f) = (loop, ok)"
    by (cases "contour_loop cv_areaROI 0 (cvf_contours f)")
  have "exec (cvf_throws f) (fst (contour_loop cv_areaROI 0 (cvf_contours f)))
      [H_src, H_gray, H_blur, H_edges, H_kernel, H_contours, H_hierarchy]
      = (False, [H_src, H_gray, H_blur, H_edges, H_kernel, H_contours, H_hierarchy])"
    by (rule exec_contour_loop) (use th in \<open>simp_all add: cv_areaROI_value\<close>)
  then have l: "exec (cvf_throws f) loop [H_src, H_gray, H_blur, H_edges, H_kernel, H_contours, H_hierarchy]
      = (False, [H_src, H_gray, H_blur, H_edges, H_kernel, H_contours, H_hierarchy])"
    by (simp add: lo)
  show ?thesis
    using assms(2,3) l
    by (simp add: estimateCardOpenCV_def lo exec_append exec_prologue[of "cvf_throws f", OF th] exec_cleanup)
qed

lemma contour_loop_ok:
  assumes "0 < A"
  shows "snd (contour_loop A i cs) = (\<exists>c \<in> set cs. spec_card_like A c)"
  by (induction cs arbitrary: i) (simp_all add: contour_loop_Cons[OF assms] del: contour_loop.simps(2))

lemma fetched_append: "fetched (xs @ ys) = fetched xs @ fetched ys"
  by (induction xs rule: fetched.induct) simp_all

lemma fetched_visit: "fetched (visit A i c) = [i]"
  by (simp add: visit_def)

lemma contour_loop_fetched:
  assumes "0 < A"
  shows "fetched (fst (contour_loop A i cs)) =
     [i ..< i + min (length cs) (Suc (length (takeWhile (\<lambda>c. \<not> spec_card_like A c) cs)))]"
proof (induction cs arbitrary: i)
  case Nil
  show ?case by simp
next
  case (Cons c cs)
  have u: "[i ..< i + Suc n] = i # [Suc i ..< Suc i + n]" for n
    by (simp add: upt_conv_Cons)
  show ?case
    using Cons[of "Suc i"] u[of "min (length cs) (Suc (length (takeWhile (\<lambda>c. \<not> spec_card_like A c) cs)))"] u[of 0]
    by (simp add: contour_loop_Cons[OF assms] fetched_append fetched_visit del: contour_loop.simps(2) upt_Suc)
qed


lemma demo_contour_loop:
  "contour_loop cv_areaROI 0 demo_contours =
     ([Call ContoursSize, Alloc (H_cnt 0) (ContoursGet 0), Call (ContourArea 0), Delete (H_cnt 0),
       Call ContoursSize, Alloc (H_cnt 1) (ContoursGet 1), Call (ContourArea 1),
       Call (MinAreaRect 1), Delete (H_cnt 1),
       Call ContoursSize, Alloc (H_cnt 2) (ContoursGet 2), Call (ContourArea 2),
       Call (MinAreaRect 2), Delete (H_cnt 2)], True)"
  "contour_loop cv_areaROI 0 (take 2 demo_contours) =
     ([Call ContoursSize, Alloc (H_cnt 0) (ContoursGet 0), Call (ContourArea 0), Delete (H_cnt 0),
       Call ContoursSize, Alloc (H_cnt 1) (ContoursGet 1), Call (ContourArea 1),
       Call (MinAreaRect 1), Delete (H_cnt 1),
       Call ContoursSize], False)"
proof -
  have A: "(0::real) < 183600" by simp
  have like: "\<not> spec_card_like 183600 \<lparr>cnt_area = 1000, rr_width = 40, rr_height = 30\<rparr>"
    "\<not> spec_card_like 183600 \<lparr>cnt_area = 60000, rr_width = 250, rr_height = 250\<rparr>"
    "spec_card_like 183600 \<lparr>cnt_area = 90000, rr_width = 390, rr_height = 245\<rparr>"
    by (simp_all add: spec_card_like_def)
  show "contour_loop cv_areaROI 0 demo_contours =
     ([Call ContoursSize, Alloc (H_cnt 0) (ContoursGet 0), Call (ContourArea 0), Delete (H_cnt 0),
       Call ContoursSize, Alloc (H_cnt 1) (ContoursGet 1), Call (ContourArea 1),
       Call (MinAreaRect 1), Delete (H_cnt 1),
       Call ContoursSize, Alloc (H_cnt 2) (ContoursGet 2), Call (ContourArea 2),
       Call (MinAreaRect 2), Delete (H_cnt 2)], True)"
    unfolding cv_areaROI_value demo_contours_def
    by (simp add: contour_loop_Cons[OF A] like visit_def numeral_2_eq_2
        del: contour_loop.simps(2))
  show "contour_loop cv_areaROI 0 (take 2 demo_contours) =
     ([Call ContoursSize, Alloc (H_cnt 0) (ContoursGet 0), Call (ContourArea 0), Delete (H_cnt 0),
       Call ContoursSize, Alloc (H_cnt 1) (ContoursGet 1), Call (ContourArea 1),
       Call (MinAreaRect 1), Delete (H_cnt 1),
       Call ContoursSize], False)"
    unfolding cv_areaROI_value demo_contours_def
    by (simp add: contour_loop_Cons[OF A] like visit_def numeral_2_eq_2
        del: contour_loop.simps(2))
qed

lemmas demo_frame_defs =
  estimateCardOpenCV_def demo_frame_def demo_contour_loop prologue_def cleanup_def

text \<open>
  Claim C6 says that every engine object the contour detector allocates is released on
  every path, also when an engine operation throws. The function has no \<^verbatim>\<open>try\<close>: when
  \<^verbatim>\<open>cvtColor\<close> throws, the five objects allocated before it stay alive, and when
  \<^verbatim>\<open>minAreaRect\<close> throws on the second contour, so do the contour vector, the hierarchy
  and the contour just fetched.
\<close>

theorem throwing_engine_call_leaks_counterexample:
  "estimateCardOpenCV (demo_frame (\<lambda>c. c = CvtColor))
     = (Throws, [H_src, H_gray, H_blur, H_edges, H_kernel])
   \<and> estimateCardOpenCV (demo_frame (\<lambda>c. c = MinAreaRect 1))
     = (Throws, [H_src, H_gray, H_blur, H_edges, H_kernel, H_contours, H_hierarchy, H_cnt 1])"
  by (simp add: demo_frame_defs del: contour_loop.simps(2))

text \<open>
  Claim C6 as amended: when no engine operation throws, the detector returns with every
  engine object it allocated released (the source image, the three matrices, the
  kernel, the contour vector, the hierarchy and each fetched contour), whether the
  region is accepted or rejected.
\<close>

theorem no_throw_releases_every_engine_object:
  assumes "\<And>c. \<not> cvf_throws f c"
  shows "snd (estimateCardOpenCV f) = [] \<and> fst (estimateCardOpenCV f) \<noteq> Throws"
proof (cases "cvf_present f \<and> cvf_ctx2d f")
  case True
  then show ?thesis
    using estimateCardOpenCV_no_throw[of f, OF assms] by simp
next
  case False
  then show ?thesis
    by (auto simp add: estimateCardOpenCV_def)
qed

theorem no_throw_releases_every_engine_object_witness:
  "estimateCardOpenCV (demo_frame (\<lambda>c. False)) = (Returns True, [])
   \<and> estimateCardOpenCV (demo_frame (\<lambda>c. False)\<lparr>cvf_contours := []\<rparr>) = (Returns False, [])"
  using no_throw_releases_every_engine_object [of "demo_frame (\<lambda>c. False)"]
    no_throw_releases_every_engine_object [of "demo_frame (\<lambda>c. False)\<lparr>cvf_contours := []\<rparr>"]
  by (simp add: demo_frame_defs del: contour_loop.simps(2))

text \<open>
  Claim C8: when the engine is there, the context is available and no engine operation
  throws, the contour detector returns true exactly when some contour has an area of at
  least 5% of the region (540 x 340 pixels), a rotated rectangle with an area strictly
  between 12% and 98% of the region, an aspect ratio \<open>max w h / max 1 (min w h)\<close>
  strictly between 1.35 and 1.9 and a rectangularity above 0.6; the loop fetches the
  contours in order up to and including the first such contour and no further.
\<close>

theorem contour_detector_decision:
  assumes "cvf_present f" and "cvf_ctx2d f" and "\<And>c. \<not> cvf_throws f c"
  shows "fst (estimateCardOpenCV f) = Returns (\<exists>c \<in> set (cvf_contours f). spec_card_like cv_areaROI c)
     \<and> cv_areaROI = 540 * 340
     \<and> fetched (fst (contour_loop cv_areaROI 0 (cvf_contours f)))
         = [0 ..< min (length (cvf_contours f))
                    (Suc (length (takeWhile (\<lambda>c. \<not> spec_card_like cv_areaROI c) (cvf_contours f))))]"
  using estimateCardOpenCV_no_throw[of f, OF assms(3) assms(1) assms(2)]
    contour_loop_ok[of cv_areaROI 0 "cvf_contours f"]
    contour_loop_fetched[of cv_areaROI 0 "cvf_contours f"]
  by (simp add: cv_areaROI_value)

theorem contour_detector_decision_witness:
  "fst (estimateCardOpenCV (demo_frame (\<lambda>c. False))) = Returns True
   \<and> fetched (fst (contour_loop cv_areaROI 0 demo_contours)) = [0, 1, 2]
   \<and> fst (estimateCardOpenCV (demo_frame (\<lambda>c. False)\<lparr>cvf_contours := take 2 demo_contours\<rparr>))
       = Returns False"
  using contour_detector_decision [of "demo_frame (\<lambda>c. False)"]
    contour_detector_decision [of "demo_frame (\<lambda>c. False)\<lparr>cvf_contours := take 2 demo_contours\<rparr>"]
  by (simp add: demo_frame_defs del: contour_loop.simps(2))

subsection \<open>Rounding to double precision\<close>

lemma pow2_neg_le_1: "pow2 (- int n) \<le> 1"
proof -
  have "1 \<le> (2::real) ^ n" by simp
  then have "inverse ((2::real) ^ n) \<le> 1" by (simp add: field_simps)
  then show ?thesis by (simp only: power_int_minus power_int_of_nat)
qed

lemma pow2_Suc: "pow2 (e + 1) = 2 * pow2 e"
  by (simp add: power_int_add)

lemma pow2_pos: "0 < pow2 e"
  by simp

lemma log2_floor_spec:
  assumes "0 < x" and "x < pow2 (int n + 1)"
  shows "- int n \<le> log2_floor n x \<and> x < pow2 (log2_floor n x + 1)
     \<and> (pow2 (- int n) \<le> x \<longrightarrow> pow2 (log2_floor n x) \<le> x)
     \<and> (x < pow2 (- int n) \<longrightarrow> log2_floor n x = - int n)"
  using assms
proof (induction n arbitrary: x)
  case 0
  then show ?case by simp
next
  case (Suc n)
  have sn: "int (Suc n) = int n + 1" by simp
  have up: "pow2 (int (Suc n) + 1) = 2 * pow2 (int n + 1)"
    unfolding sn by (rule pow2_Suc)
  have dn: "pow2 (- int n) = 2 * pow2 (- int (Suc n))"
    using pow2_Suc[of "- int (Suc n)"] by (simp add: sn)
  have top: "(2::real) \<le> pow2 (int n + 1)"
    using pow2_Suc[of "int n"] by simp
  consider (big) "2 \<le> x" | (small) "x < 1" | (mid) "1 \<le> x" "x < 2" by linarith
  then show ?case
  proof cases
    case big
    have h: "0 < x / 2" "x / 2 < pow2 (int n + 1)"
      using Suc.prems up by simp_all
    note ih = Suc.IH[OF h]
    let ?e = "log2_floor n (x / 2)"
    have e: "log2_floor (Suc n) x = ?e + 1" using big by simp
    have one: "pow2 (- int n) \<le> x / 2"
      using pow2_neg_le_1[of n] big by linarith
    have nl: "\<not> x < pow2 (- int (Suc n))"
      using pow2_neg_le_1[of "Suc n"] big by linarith
    have i1: "- int n \<le> ?e" and i2: "x / 2 < pow2 (?e + 1)"
      and i3: "pow2 ?e \<le> x / 2"
      using ih one by blast+
    have a: "x < pow2 (?e + 1 + 1)"
      using i2 pow2_Suc[of "?e + 1"] by linarith
    have b: "pow2 (?e + 1) \<le> x"
      using i3 pow2_Suc[of "?e"] by linarith
    have c: "- int (Suc n) \<le> ?e + 1" using i1 by simp
    show ?thesis
      unfolding e using a b c nl by blast
  next
    case small
    have h: "0 < x * 2" "x * 2 < pow2 (int n + 1)"
      using Suc.prems small top by linarith+
    note ih = Suc.IH[OF h]
    let ?e = "log2_floor n (x * 2)"
    have e: "log2_floor (Suc n) x = ?e - 1" using small by simp
    have i1: "- int n \<le> ?e" and i2: "x * 2 < pow2 (?e + 1)"
      and i3: "pow2 (- int n) \<le> x * 2 \<Longrightarrow> pow2 ?e \<le> x * 2"
      and i4: "x * 2 < pow2 (- int n) \<Longrightarrow> ?e = - int n"
      using ih by blast+
    have a: "x < pow2 (?e - 1 + 1)"
      using i2 pow2_Suc[of "?e"] by simp
    have b: "pow2 (- int (Suc n)) \<le> x \<Longrightarrow> pow2 (?e - 1) \<le> x"
    proof -
      assume "pow2 (- int (Suc n)) \<le> x"
      then have "pow2 (- int n) \<le> x * 2" using dn by linarith
      then have "pow2 ?e \<le> x * 2" by (rule i3)
      then show ?thesis using pow2_Suc[of "?e - 1"] by simp
    qed
    have c: "x < pow2 (- int (Suc n)) \<Longrightarrow> ?e - 1 = - int (Suc n)"
    proof -
      assume "x < pow2 (- int (Suc n))"
      then have "x * 2 < pow2 (- int n)" using dn by linarith
      then have "?e = - int n" by (rule i4)
      then show ?thesis by simp
    qed
    have d: "- int (Suc n) \<le> ?e - 1" using i1 by simp
    show ?thesis
      unfolding e using a b c d by blast
  next
    case mid
    have e: "log2_floor (Suc n) x = 0" using mid by simp
    have nl: "\<not> x < pow2 (- int (Suc n))"
      using pow2_neg_le_1[of "Suc n"] mid by linarith
    show ?thesis
      unfolding e using mid nl by simp
  qed
qed


lemma pow2_mono: "a \<le> b \<Longrightarrow> pow2 a \<le> pow2 b"
  by (rule power_int_increasing) simp_all

lemma pow2_less_cancel: "pow2 a < pow2 b \<Longrightarrow> a < b"
  using pow2_mono[of b a] by force

lemma pow2_le_cancel: "pow2 a \<le> pow2 b \<Longrightarrow> a \<le> b"
  using power_int_strict_increasing[of b a "2::real"] by force

lemma exponent_spec:
  assumes "0 < a" and "a < pow2 1024"
  shows "- 1022 \<le> exponent a" "a < pow2 (exponent a + 1)"
    "pow2 (- 1022) \<le> a \<Longrightarrow> pow2 (exponent a) \<le> a"
    "a < pow2 (- 1022) \<Longrightarrow> exponent a = - 1022"
proof -
  let ?e = "log2_floor 1100 a"
  have "a < pow2 (int 1100 + 1)"
    using assms(2) pow2_mono[of 1024 "int 1100 + 1"] by simp
  from log2_floor_spec[OF assms(1) this]
  have s1: "a < pow2 (?e + 1)"
    and s2: "pow2 (- 1100) \<le> a \<Longrightarrow> pow2 ?e \<le> a"
    and s3: "a < pow2 (- 1100) \<Longrightarrow> ?e = - 1100"
    by simp_all
  show "- 1022 \<le> exponent a" by (simp add: exponent_def)
  show "a < pow2 (exponent a + 1)"
    using s1 pow2_mono[of "?e + 1" "exponent a + 1"] by (simp add: exponent_def)
  have low: "pow2 (- 1100) \<le> pow2 (- 1022)"
    by (rule pow2_mono) simp
  show "pow2 (exponent a) \<le> a" if h: "pow2 (- 1022) \<le> a"
  proof -
    have "pow2 (- 1022) < pow2 (?e + 1)" using h s1 by linarith
    then have "- 1022 < ?e + 1" by (rule pow2_less_cancel)
    then have "exponent a = ?e" by (simp add: exponent_def)
    moreover have "pow2 ?e \<le> a" using s2 h low by linarith
    ultimately show ?thesis by simp
  qed
  show "exponent a = - 1022" if h: "a < pow2 (- 1022)"
  proof (cases "a < pow2 (- 1100)")
    case True
    then show ?thesis using s3 by (simp add: exponent_def)
  next
    case False
    then have "pow2 ?e \<le> a" using s2 by simp
    then have "pow2 ?e < pow2 (- 1022)" using h by linarith
    then have "?e < - 1022" by (rule pow2_less_cancel)
    then show ?thesis by (simp add: exponent_def)
  qed
qed

lemma exponent_eq:
  assumes "0 < a" and "- 1022 \<le> k" and "k < 1024"
    and "pow2 k \<le> a" and "a < pow2 (k + 1)"
  shows "exponent a = k"
proof -
  have top: "a < pow2 1024"
    using assms(5) pow2_mono[of "k + 1" 1024] assms(3) by simp
  have low: "pow2 (- 1022) \<le> a"
    using assms(4) pow2_mono[of "- 1022" k] assms(2) by simp
  note sp = exponent_spec[OF assms(1) top]
  have "pow2 (exponent a) < pow2 (k + 1)"
    using sp(3)[OF low] assms(5) by linarith
  then have a: "exponent a < k + 1" by (rule pow2_less_cancel)
  have "pow2 k < pow2 (exponent a + 1)"
    using sp(2) assms(4) by linarith
  then have "k < exponent a + 1" by (rule pow2_less_cancel)
  then show ?thesis using a by simp
qed

lemma rhe_of_int: "round_half_even (of_int k) = k"
  by (simp add: round_half_even_def)

lemma rhe_between: "\<lfloor>y\<rfloor> \<le> round_half_even y" "round_half_even y \<le> \<lfloor>y\<rfloor> + 1"
  by (simp_all add: round_half_even_def Let_def)

lemma rhe_mono:
  assumes "y \<le> z"
  shows "round_half_even y \<le> round_half_even z"
proof (cases "\<lfloor>y\<rfloor> = \<lfloor>z\<rfloor>")
  case True
  then show ?thesis
    using assms by (auto simp add: round_half_even_def Let_def)
next
  case False
  then have "\<lfloor>y\<rfloor> < \<lfloor>z\<rfloor>"
    using floor_mono[OF assms] by simp
  then show ?thesis
    using rhe_between(2)[of y] rhe_between(1)[of z] by linarith
qed

lemma rhe_le: "y \<le> of_int k \<Longrightarrow> round_half_even y \<le> k"
  using rhe_mono[of y "of_int k"] by (simp add: rhe_of_int)

lemma rhe_ge: "of_int k \<le> y \<Longrightarrow> k \<le> round_half_even y"
  using rhe_mono[of "of_int k" y] by (simp add: rhe_of_int)

lemma rhe_err: "\<bar>of_int (round_half_even y) - y\<bar> \<le> 1 / 2"
proof -
  have "of_int \<lfloor>y\<rfloor> \<le> y" "y < of_int \<lfloor>y\<rfloor> + 1" by linarith+
  then show ?thesis
    by (auto simp add: round_half_even_def Let_def)
qed

lemma binary64_zero [simp]: "binary64 0 = 0"
  by (simp add: binary64_def)

lemma binary64_minus: "binary64 (- x) = - binary64 x"
  by (simp add: binary64_def Let_def sgn_minus)

lemma binary64_pos:
  assumes "0 < x"
  shows "binary64 x =
    pow2 (exponent x - 52) * of_int (round_half_even (x / pow2 (exponent x - 52)))"
  using assms by (simp add: binary64_def Let_def)

lemma binary64_eval:
  assumes "0 < x" and "- 1022 \<le> k" and "k < 1024"
    and "pow2 k \<le> x" and "x < pow2 (k + 1)"
  shows "binary64 x = pow2 (k - 52) * of_int (round_half_even (x / pow2 (k - 52)))"
  using binary64_pos[OF assms(1)] exponent_eq[OF assms] by simp

lemma binary64_nonneg:
  assumes "0 \<le> x"
  shows "0 \<le> binary64 x"
proof (cases "x = 0")
  case True
  then show ?thesis by simp
next
  case False
  then have x: "0 < x" using assms by simp
  let ?q = "pow2 (exponent x - 52)"
  have "of_int 0 \<le> x / ?q" using x by simp
  then have "0 \<le> round_half_even (x / ?q)" by (rule rhe_ge)
  then show ?thesis
    unfolding binary64_pos[OF x] by simp
qed


lemma pow2_split52: "pow2 e = pow2 (e - 52) * of_int (2 ^ 52)"
  using power_int_add[of "2::real" "e - 52" 52] by simp

lemma pow2_split53: "pow2 (e + 1) = pow2 (e - 52) * of_int (2 ^ 53)"
  using power_int_add[of "2::real" "e - 52" 53] by (simp add: add.commute)

lemma binary64_upper:
  assumes "0 < x" and "x < pow2 1024"
  shows "binary64 x \<le> pow2 (exponent x + 1)"
proof -
  let ?E = "exponent x"
  let ?q = "pow2 (?E - 52)"
  have q: "0 < ?q" by simp
  have split: "pow2 (?E + 1) = ?q * of_int (2 ^ 53)"
    using power_int_add[of "2::real" "?E - 52" 53] by (simp add: add.commute)
  have "x \<le> ?q * of_int (2 ^ 53)"
    using exponent_spec(2)[OF assms] split by linarith
  then have "x / ?q \<le> of_int (2 ^ 53)"
    using q by (simp add: field_simps)
  then have "round_half_even (x / ?q) \<le> 2 ^ 53" by (rule rhe_le)
  then have "(of_int (round_half_even (x / ?q)) :: real) \<le> of_int (2 ^ 53)"
    by (simp only: of_int_le_iff)
  then have "?q * of_int (round_half_even (x / ?q)) \<le> ?q * of_int (2 ^ 53)"
    using q by (simp only: mult_le_cancel_left_pos)
  then show ?thesis
    unfolding binary64_pos[OF assms(1)] split .
qed

lemma binary64_lower:
  assumes "0 < x" and "x < pow2 1024" and "pow2 (- 1022) \<le> x"
  shows "pow2 (exponent x) \<le> binary64 x"
proof -
  let ?E = "exponent x"
  let ?q = "pow2 (?E - 52)"
  have q: "0 < ?q" by simp
  have split: "pow2 ?E = ?q * of_int (2 ^ 52)"
    using power_int_add[of "2::real" "?E - 52" 52] by simp
  have "?q * of_int (2 ^ 52) \<le> x"
    using exponent_spec(3)[OF assms] split by linarith
  then have "of_int (2 ^ 52) \<le> x / ?q"
    using q by (simp add: field_simps)
  then have "2 ^ 52 \<le> round_half_even (x / ?q)" by (rule rhe_ge)
  then have "(of_int (2 ^ 52) :: real) \<le> of_int (round_half_even (x / ?q))"
    by (simp only: of_int_le_iff)
  then have "?q * of_int (2 ^ 52) \<le> ?q * of_int (round_half_even (x / ?q))"
    using q by (simp only: mult_le_cancel_left_pos)
  then show ?thesis
    unfolding binary64_pos[OF assms(1)] split .
qed

lemma exponent_mono:
  assumes "0 < x" and "x \<le> y" and "y < pow2 1024"
  shows "exponent x \<le> exponent y"
proof (rule ccontr)
  assume "\<not> exponent x \<le> exponent y"
  then have lt: "exponent y < exponent x" by simp
  have x: "x < pow2 1024" and y: "0 < y" using assms by linarith+
  have "- 1022 < exponent x"
    using lt exponent_spec(1)[OF y assms(3)] by linarith
  then have "pow2 (- 1022) \<le> x"
    using exponent_spec(4)[OF assms(1) x] by force
  then have "pow2 (exponent x) \<le> x"
    by (rule exponent_spec(3)[OF assms(1) x])
  then have "pow2 (exponent x) < pow2 (exponent y + 1)"
    using assms(2) exponent_spec(2)[OF y assms(3)] by linarith
  then have "exponent x < exponent y + 1" by (rule pow2_less_cancel)
  then show False using lt by simp
qed

lemma binary64_mono:
  assumes "0 \<le> x" and "x \<le> y" and "y < pow2 1024"
  shows "binary64 x \<le> binary64 y"
proof (cases "x = 0")
  case True
  then show ?thesis using binary64_nonneg[of y] assms by simp
next
  case False
  then have x: "0 < x" using assms by simp
  then have y: "0 < y" using assms by linarith
  have xt: "x < pow2 1024" using assms by linarith
  note le = exponent_mono[OF x assms(2,3)]
  show ?thesis
  proof (cases "exponent x = exponent y")
    case True
    let ?q = "pow2 (exponent y - 52)"
    have q: "0 < ?q" by simp
    have "x / ?q \<le> y / ?q" using assms(2) q by (simp add: divide_right_mono)
    then have "round_half_even (x / ?q) \<le> round_half_even (y / ?q)" by (rule rhe_mono)
    then have "(of_int (round_half_even (x / ?q)) :: real) \<le> of_int (round_half_even (y / ?q))"
      by (simp only: of_int_le_iff)
    then have "?q * of_int (round_half_even (x / ?q)) \<le> ?q * of_int (round_half_even (y / ?q))"
      using q by (simp only: mult_le_cancel_left_pos)
    then show ?thesis
      unfolding binary64_pos[OF x] binary64_pos[OF y] True .
  next
    case False
    then have lt: "exponent x + 1 \<le> exponent y" using le by simp
    have "- 1022 < exponent y"
      using lt exponent_spec(1)[OF x xt] by linarith
    then have "pow2 (- 1022) \<le> y"
      using exponent_spec(4)[OF y assms(3)] by force
    then have "pow2 (exponent y) \<le> binary64 y"
      by (rule binary64_lower[OF y assms(3)])
    moreover have "binary64 x \<le> pow2 (exponent x + 1)"
      by (rule binary64_upper[OF x xt])
    moreover have "pow2 (exponent x + 1) \<le> pow2 (exponent y)"
      using lt by (rule pow2_mono)
    ultimately show ?thesis by linarith
  qed
qed

lemma binary64_fix:
  assumes "0 < x" and "x / pow2 (exponent x - 52) = of_int k"
  shows "binary64 x = x"
proof -
  have "binary64 x = pow2 (exponent x - 52) * (x / pow2 (exponent x - 52))"
    unfolding binary64_pos[OF assms(1)] assms(2) rhe_of_int ..
  then show ?thesis by simp
qed

lemma binary64_of_nat:
  assumes "n < 2 ^ 53"
  shows "binary64 (real n) = real n"
proof (cases "n = 0")
  case True
  then show ?thesis by simp
next
  case False
  then have x: "0 < real n" by simp
  have "real n < 2 ^ 53" using assms by (metis of_nat_less_iff of_nat_numeral of_nat_power)
  then have n53: "real n < pow2 53" by simp
  have top: "real n < pow2 1024"
    using n53 pow2_mono[of 53 1024] by simp
  have "pow2 (- 1022) \<le> 1" using pow2_mono[of "- 1022" 0] by simp
  then have low: "pow2 (- 1022) \<le> real n" using False by (simp add: Suc_leI order_trans)
  have "pow2 (exponent (real n)) < pow2 53"
    using exponent_spec(3)[OF x top low] n53 by linarith
  then have e: "exponent (real n) < 53" by (rule pow2_less_cancel)
  define d where "d = nat (52 - exponent (real n))"
  have d: "exponent (real n) - 52 = - int d" using e by (simp add: d_def)
  have "real n / pow2 (exponent (real n) - 52) = of_int (int n * 2 ^ d)"
    unfolding d by (simp add: power_int_minus field_simps)
  then show ?thesis by (rule binary64_fix[OF x])
qed


lemma binary64_idem:
  assumes "0 \<le> x" and "x < pow2 1023"
  shows "binary64 (binary64 x) = binary64 x"
proof (cases "binary64 x = 0")
  case True
  then show ?thesis by simp
next
  case False
  define w where "w = binary64 x"
  have x: "0 < x" using False assms(1) by (cases "x = 0") simp_all
  have w: "0 < w" using False binary64_nonneg[OF assms(1)] by (simp add: w_def)
  have xt: "x < pow2 1024" using assms(2) pow2_mono[of 1023 1024] by simp
  define E where "E = exponent x"
  define m where "m = round_half_even (x / pow2 (E - 52))"
  have wm: "w = pow2 (E - 52) * of_int m"
    unfolding w_def m_def E_def by (rule binary64_pos[OF x])
  have El: "- 1022 \<le> E" unfolding E_def by (rule exponent_spec(1)[OF x xt])
  have Eu: "E < 1023"
  proof (cases "pow2 (- 1022) \<le> x")
    case True
    then have "pow2 E \<le> x" unfolding E_def by (rule exponent_spec(3)[OF x xt])
    then have "pow2 E < pow2 1023" using assms(2) by linarith
    then show ?thesis by (rule pow2_less_cancel)
  next
    case False
    then have "E = - 1022" unfolding E_def using exponent_spec(4)[OF x xt] by simp
    then show ?thesis by simp
  qed
  have wu: "w \<le> pow2 (E + 1)"
    unfolding w_def E_def by (rule binary64_upper[OF x xt])
  have wt: "w < pow2 1024"
    using wu pow2_mono[of "E + 1" 1023] Eu power_int_strict_increasing[of 1023 1024 "2::real"]
    by simp
  have "\<exists>k. w / pow2 (exponent w - 52) = of_int k"
  proof (cases "w = pow2 (E + 1)")
    case True
    have "w < pow2 (E + 1 + 1)"
      unfolding True by (rule power_int_strict_increasing) simp_all
    then have e: "exponent w = E + 1"
      using w El Eu True by (intro exponent_eq) simp_all
    define Q where "Q = pow2 (E + 1 - 52)"
    have Qp: "0 < Q" by (simp add: Q_def)
    have sp: "pow2 (E + 1) = Q * of_int (2 ^ 52)"
      unfolding Q_def by (rule pow2_split52)
    have "pow2 (exponent w - 52) = Q" by (simp only: e Q_def)
    then have "w / pow2 (exponent w - 52) = (Q * of_int (2 ^ 52)) / Q"
      using True sp by simp
    also have "\<dots> = of_int (2 ^ 52)" using Qp by simp
    finally have "w / pow2 (exponent w - 52) = of_int (2 ^ 52)" .
    then show ?thesis by blast
  next
    case False
    then have lt: "w < pow2 (E + 1)" using wu by simp
    have e: "exponent w = E"
    proof (cases "pow2 (- 1022) \<le> x")
      case True
      have "pow2 E \<le> w"
        unfolding w_def E_def by (rule binary64_lower[OF x xt True])
      then show ?thesis using w El Eu lt by (intro exponent_eq) simp_all
    next
      case False
      then have E: "E = - 1022" unfolding E_def using exponent_spec(4)[OF x xt] by simp
      show ?thesis
      proof (cases "w < pow2 (- 1022)")
        case True
        then show ?thesis using exponent_spec(4)[OF w wt] E by simp
      next
        case False
        then show ?thesis using w lt unfolding E by (intro exponent_eq) simp_all
      qed
    qed
    have pe: "pow2 (exponent w - 52) = pow2 (E - 52)" by (simp only: e)
    have "w / pow2 (E - 52) = of_int m" unfolding wm by simp
    then have "w / pow2 (exponent w - 52) = of_int m" by (simp only: pe)
    then show ?thesis by blast
  qed
  then obtain k where "w / pow2 (exponent w - 52) = of_int k" by blast
  then have "binary64 w = w" by (rule binary64_fix[OF w])
  then show ?thesis by (simp add: w_def)
qed

text \<open>The constants of the detector as doubles.\<close>

lemma binary64_0299: "binary64 0.299 = 5386305154335113 / 2 ^ 54"
  using binary64_eval[of "0.299" "- 2"] by (simp add: round_half_even_def power_int_minus)

lemma binary64_018: "binary64 0.18 = 3242591731706757 / 2 ^ 54"
  using binary64_eval[of "0.18" "- 3"] by (simp add: round_half_even_def power_int_minus)

subsection \<open>The heuristic card detector\<close>

lemma heuristic_outH_value: "heuristic_outH = 202"
  by (simp add: heuristic_outH_def heuristic_outW_def round_def)

lemma sample_x_bound:
  fixes s :: nat
  assumes "s < 200"
  shows "2 + (316 * s) div 200 < 320"
proof -
  have "316 * s \<le> 316 * 199" using assms by simp
  then have "(316 * s) div 200 \<le> (316 * 199) div 200" by (rule div_le_mono)
  then show ?thesis by simp
qed

lemma sample_y_bound:
  fixes s :: nat
  assumes "s < 200"
  shows "2 + (198 * s) div 200 < 202"
proof -
  have "198 * s \<le> 198 * 199" using assms by simp
  then have "(198 * s) div 200 \<le> (198 * 199) div 200" by (rule div_le_mono)
  then show ?thesis by simp
qed

lemma lum_pixel:
  assumes "length img = 258560" and "x < 320" and "y < 202"
  shows "lum img (idx 320 (int x) (int y)) = Some (spec_Y_double img (x, y))"
proof -
  have i: "idx 320 (int x) (int y) = int (4 * (320 * y + x))"
    by (simp add: idx_def)
  have "4 * (320 * y + x) + 2 < length img"
    using assms by simp
  then show ?thesis
    unfolding i lum_def spec_Y_double_def spec_channel_def
    by (simp only: nat_int of_nat_0_le_iff fst_conv snd_conv) simp
qed

lemma contrast_pixels:
  assumes "length img = 258560" and "in_raster p" and "in_raster q"
  shows "contrast img (idx 320 (int (fst p)) (int (snd p))) (idx 320 (int (fst q)) (int (snd q)))
         = Some (spec_pair_contrast_double img (p, q))"
  using assms lum_pixel[of img "fst p" "snd p"] lum_pixel[of img "fst q" "snd q"]
  by (simp add: contrast_def in_raster_def spec_pair_contrast_double_def)

lemma nan_plus_Some [simp]: "nan_plus (Some a) (Some b) = Some (binary64 (a + b))"
  by (simp add: nan_plus_def)

lemma edge_loop_rows_unfold:
  assumes "s < 200" and "X = 2 + ((w - 4) * int s) div 200"
  shows "edge_loop_rows data w h s acc n =
     edge_loop_rows data w h (Suc s)
       (nan_plus (nan_plus acc (contrast data (idx w X 2) (idx w X (min 5 (h - 1)))))
          (contrast data (idx w X (h - 3)) (idx w X (clamp (h - 6) 0 (h - 1)))))
       (n + 2)"
  using assms by (subst edge_loop_rows.simps) (simp add: samples_def Let_def)

lemma edge_loop_cols_unfold:
  assumes "s < 200" and "Y = 2 + ((h - 4) * int s) div 200"
  shows "edge_loop_cols data w h s acc n =
     edge_loop_cols data w h (Suc s)
       (nan_plus (nan_plus acc (contrast data (idx w 2 Y) (idx w (min 5 (w - 1)) Y)))
          (contrast data (idx w (w - 3) Y) (idx w (clamp (w - 6) 0 (w - 1)) Y)))
       (n + 2)"
  using assms by (subst edge_loop_cols.simps) (simp add: samples_def Let_def)

lemma edge_loop_rows_step:
  assumes len: "length img = 258560" and s: "s < 200"
  shows "edge_loop_rows img 320 202 s (Some a) n =
     edge_loop_rows img 320 202 (Suc s)
       (Some (sum_double a (map (spec_pair_contrast_double img) (spec_top_bottom s)))) (n + 2)"
proof -
  define x where "x = 2 + (316 * s) div 200"
  have x: "x < 320" unfolding x_def using s by (rule sample_x_bound)
  have xi: "int x = 2 + ((320 - 4) * int s) div 200"
    unfolding x_def by (simp add: zdiv_int)
  have c0: "contrast img (idx 320 (int x) 2) (idx 320 (int x) 5)
      = Some (spec_pair_contrast_double img ((x, 2), (x, 5)))"
    using contrast_pixels[OF len, of "(x, 2)" "(x, 5)"] x by (simp add: in_raster_def)
  have c1: "contrast img (idx 320 (int x) 199) (idx 320 (int x) 196)
      = Some (spec_pair_contrast_double img ((x, 199), (x, 196)))"
    using contrast_pixels[OF len, of "(x, 199)" "(x, 196)"] x by (simp add: in_raster_def)
  have tb: "spec_top_bottom s = [((x, 2), (x, 5)), ((x, 199), (x, 196))]"
    by (simp add: spec_top_bottom_def x_def)
  show ?thesis
    unfolding edge_loop_rows_unfold[OF s xi] tb
    by (simp add: clamp_def c0 c1 sum_double_def)
qed

lemma edge_loop_cols_step:
  assumes len: "length img = 258560" and s: "s < 200"
  shows "edge_loop_cols img 320 202 s (Some a) n =
     edge_loop_cols img 320 202 (Suc s)
       (Some (sum_double a (map (spec_pair_contrast_double img) (spec_left_right s)))) (n + 2)"
proof -
  define y where "y = 2 + (198 * s) div 200"
  have y: "y < 202" unfolding y_def using s by (rule sample_y_bound)
  have yi: "int y = 2 + ((202 - 4) * int s) div 200"
    unfolding y_def by (simp add: zdiv_int)
  have c0: "contrast img (idx 320 2 (int y)) (idx 320 5 (int y))
      = Some (spec_pair_contrast_double img ((2, y), (5, y)))"
    using contrast_pixels[OF len, of "(2, y)" "(5, y)"] y by (simp add: in_raster_def)
  have c1: "contrast img (idx 320 317 (int y)) (idx 320 314 (int y))
      = Some (spec_pair_contrast_double img ((317, y), (314, y)))"
    using contrast_pixels[OF len, of "(317, y)" "(314, y)"] y by (simp add: in_raster_def)
  have lr: "spec_left_right s = [((2, y), (5, y)), ((317, y), (314, y))]"
    by (simp add: spec_left_right_def y_def)
  show ?thesis
    unfolding edge_loop_cols_unfold[OF s yi] lr
    by (simp add: clamp_def c0 c1 sum_double_def)
qed

lemma edge_loop_rows_done: "edge_loop_rows data w h 200 acc n = (acc, n)"
  by (subst edge_loop_rows.simps) (simp add: samples_def)

lemma edge_loop_cols_done: "edge_loop_cols data w h 200 acc n = (acc, n)"
  by (subst edge_loop_cols.simps) (simp add: samples_def)

lemma sum_double_append: "sum_double a (xs @ ys) = sum_double (sum_double a xs) ys"
  by (simp add: sum_double_def)

lemma edge_loop_rows_sum:
  assumes len: "length img = 258560"
  shows "s \<le> 200 \<Longrightarrow> edge_loop_rows img 320 202 s (Some a) n =
     (Some (sum_double a (map (spec_pair_contrast_double img)
                            (concat (map spec_top_bottom [s..<200])))),
      n + 2 * (200 - s))"
proof (induction "200 - s" arbitrary: s a n)
  case 0
  then have "s = 200" by simp
  then show ?case by (simp add: edge_loop_rows_done sum_double_def)
next
  case (Suc k)
  then have s: "s < 200" and k: "k = 200 - Suc s" by simp_all
  have up: "[s..<200] = s # [Suc s..<200]"
    using s by (rule upt_conv_Cons)
  have "Suc s \<le> 200" using s by simp
  note ih = Suc.hyps(1)[OF k this]
  show ?case
    using s
    by (simp only: edge_loop_rows_step[OF len s] ih up list.map concat.simps map_append
          sum_double_append)
       simp
qed

lemma edge_loop_cols_sum:
  assumes len: "length img = 258560"
  shows "s \<le> 200 \<Longrightarrow> edge_loop_cols img 320 202 s (Some a) n =
     (Some (sum_double a (map (spec_pair_contrast_double img)
                            (concat (map spec_left_right [s..<200])))),
      n + 2 * (200 - s))"
proof (induction "200 - s" arbitrary: s a n)
  case 0
  then have "s = 200" by simp
  then show ?case by (simp add: edge_loop_cols_done sum_double_def)
next
  case (Suc k)
  then have s: "s < 200" and k: "k = 200 - Suc s" by simp_all
  have up: "[s..<200] = s # [Suc s..<200]"
    using s by (rule upt_conv_Cons)
  have "Suc s \<le> 200" using s by simp
  note ih = Suc.hyps(1)[OF k this]
  show ?case
    using s
    by (simp only: edge_loop_cols_step[OF len s] ih up list.map concat.simps map_append
          sum_double_append)
       simp
qed

lemma length_top_bottom: "length (concat (map spec_top_bottom xs)) = 2 * length xs"
  by (induction xs) (simp_all add: spec_top_bottom_def Let_def)

lemma length_left_right: "length (concat (map spec_left_right xs)) = 2 * length xs"
  by (induction xs) (simp_all add: spec_left_right_def Let_def)

lemma length_spec_sample_pairs: "length spec_sample_pairs = 800"
  by (simp add: spec_sample_pairs_def length_top_bottom length_left_right)

lemma spec_sample_pairs_in_raster:
  assumes "pq \<in> set spec_sample_pairs"
  shows "in_raster (fst pq) \<and> in_raster (snd pq)"
proof -
  from assms consider s where "s < 200" "pq \<in> set (spec_top_bottom s)"
    | s where "s < 200" "pq \<in> set (spec_left_right s)"
    by (auto simp add: spec_sample_pairs_def)
  then show ?thesis
  proof cases
    case 1
    then show ?thesis
      using sample_x_bound[OF 1(1)] by (auto simp add: spec_top_bottom_def Let_def in_raster_def)
  next
    case 2
    then show ?thesis
      using sample_y_bound[OF 2(1)] by (auto simp add: spec_left_right_def Let_def in_raster_def)
  qed
qed

lemma edgeScore_320:
  assumes len: "length img = 258560"
  shows "edgeScore img 320 202 = Some (spec_average_double img)"
proof -
  have r: "edge_loop_rows img 320 202 0 (Some 0) 0 =
      (Some (sum_double 0 (map (spec_pair_contrast_double img)
                             (concat (map spec_top_bottom [0..<200])))), 400)"
    using edge_loop_rows_sum[OF len, of 0 0 0] by simp
  show ?thesis
    unfolding edgeScore_def r
    using edge_loop_cols_sum[OF len, of 0 _ 400]
    by (simp add: spec_average_double_def length_spec_sample_pairs)
       (simp add: spec_sample_pairs_def sum_double_append)
qed


subsection \<open>Doubles of the detector\<close>

lemma pow2_1024_big: "1024 < pow2 1024"
proof -
  have "pow2 10 < pow2 1024" by (rule power_int_strict_increasing) simp_all
  then show ?thesis by simp
qed

lemma pow2_1023_big: "1024 < pow2 1023"
proof -
  have "pow2 10 < pow2 1023" by (rule power_int_strict_increasing) simp_all
  then show ?thesis by simp
qed

lemma binary64_mono_small:
  assumes "0 \<le> x" and "x \<le> y" and "y \<le> 1024"
  shows "binary64 x \<le> binary64 y"
  using assms pow2_1024_big by (intro binary64_mono) simp_all

lemma binary64_idem_small:
  assumes "0 \<le> x" and "x \<le> 1024"
  shows "binary64 (binary64 x) = binary64 x"
  using assms pow2_1023_big by (intro binary64_idem) simp_all

lemma binary64_abs: "\<bar>binary64 x\<bar> = binary64 \<bar>x\<bar>"
proof (cases "0 \<le> x")
  case True
  then show ?thesis using binary64_nonneg[of x] by simp
next
  case False
  then have "0 \<le> - x" by simp
  then have "0 \<le> binary64 (- x)" by (rule binary64_nonneg)
  then show ?thesis using False by (simp add: binary64_minus)
qed

lemma binary64_0587: "binary64 0.587 = 2643612981266481 / 2 ^ 52"
  using binary64_eval[of "0.587" "- 1"] by (simp add: round_half_even_def power_int_minus)

lemma binary64_0114: "binary64 0.114 = 8214565720323785 / 2 ^ 56"
  using binary64_eval[of "0.114" "- 4"] by (simp add: round_half_even_def power_int_minus)

lemma binary64_1 [simp]: "binary64 1 = 1"
  using binary64_of_nat[of 1] by simp

lemma binary64_255 [simp]: "binary64 255 = 255"
  using binary64_of_nat[of 255] by simp

lemma white_red: "binary64 (binary64 0.299 * 255) = 5365264899825991 / 2 ^ 46"
  unfolding binary64_0299
  using binary64_eval[of "5386305154335113 / 2 ^ 54 * 255" 6]
  by (simp add: round_half_even_def power_int_minus)

lemma white_green: "binary64 (binary64 0.587 * 255) = 2633286368058409 / 2 ^ 44"
  unfolding binary64_0587
  using binary64_eval[of "2643612981266481 / 2 ^ 52 * 255" 7]
  by (simp add: round_half_even_def power_int_minus)

lemma white_blue: "binary64 (binary64 0.114 * 255) = 4091238786489385 / 2 ^ 47"
  unfolding binary64_0114
  using binary64_eval[of "8214565720323785 / 2 ^ 56 * 255" 4]
  by (simp add: round_half_even_def power_int_minus)

lemma white_red_green:
  "binary64 (5365264899825991 / 2 ^ 46 + 2633286368058409 / 2 ^ 44) = 3974602593014907 / 2 ^ 44"
  using binary64_eval[of "5365264899825991 / 2 ^ 46 + 2633286368058409 / 2 ^ 44" 7]
  by (simp add: round_half_even_def power_int_minus)

lemma white_sum:
  "binary64 (3974602593014907 / 2 ^ 44 + 4091238786489385 / 2 ^ 47) = 255"
  using binary64_eval[of "3974602593014907 / 2 ^ 44 + 4091238786489385 / 2 ^ 47" 7]
  by (simp add: round_half_even_def power_int_minus)

lemma white_luma:
  "binary64 (binary64 (binary64 (binary64 0.299 * 255) + binary64 (binary64 0.587 * 255))
             + binary64 (binary64 0.114 * 255)) = 255"
  by (simp only: white_red white_green white_blue white_red_green white_sum)

lemma byte_bounds: "0 \<le> byte v" "byte v \<le> 255"
proof -
  show "0 \<le> byte v" unfolding byte_def by (rule of_nat_0_le_iff)
  have "unat v < 2 ^ LENGTH(8)" by (rule unsigned_less)
  then have "unat v \<le> 255" by simp
  then have "real (unat v) \<le> real 255" by (rule of_nat_mono)
  then show "byte v \<le> 255" unfolding byte_def by (simp only: of_nat_numeral)
qed

lemma weighted_double_bounds:
  assumes c: "0 \<le> c" "c \<le> 1" and r: "0 \<le> r" "r \<le> 255"
  shows "0 \<le> binary64 (c * r)" "binary64 (c * r) \<le> binary64 (c * 255)" "c * 255 \<le> 255"
proof -
  have a: "0 \<le> c * r" using c r by simp
  show "0 \<le> binary64 (c * r)" using a by (rule binary64_nonneg)
  have b: "c * r \<le> c * 255" using c r by (intro mult_left_mono) simp_all
  show d: "c * 255 \<le> 255" using c by simp
  show "binary64 (c * r) \<le> binary64 (c * 255)"
    using a b d by (intro binary64_mono_small) simp_all
qed

lemma luma_double_bounds:
  assumes "0 \<le> r" "r \<le> 255" "0 \<le> g" "g \<le> 255" "0 \<le> b" "b \<le> 255"
  shows "0 \<le> binary64 (binary64 (binary64 (binary64 0.299 * r) + binary64 (binary64 0.587 * g))
                       + binary64 (binary64 0.114 * b))"
    and "binary64 (binary64 (binary64 (binary64 0.299 * r) + binary64 (binary64 0.587 * g))
                       + binary64 (binary64 0.114 * b)) \<le> 255"
proof -
  have c1: "0 \<le> binary64 0.299" "binary64 0.299 \<le> 1" unfolding binary64_0299 by simp_all
  have c2: "0 \<le> binary64 0.587" "binary64 0.587 \<le> 1" unfolding binary64_0587 by simp_all
  have c3: "0 \<le> binary64 0.114" "binary64 0.114 \<le> 1" unfolding binary64_0114 by simp_all
  note R = weighted_double_bounds[OF c1 assms(1,2)]
  note G = weighted_double_bounds[OF c2 assms(3,4)]
  note B = weighted_double_bounds[OF c3 assms(5,6)]
  define pr where "pr = binary64 (binary64 0.299 * r)"
  define pg where "pg = binary64 (binary64 0.587 * g)"
  define pb where "pb = binary64 (binary64 0.114 * b)"
  have pr: "0 \<le> pr" "pr \<le> 5365264899825991 / 2 ^ 46"
    unfolding pr_def by (rule R(1)) (rule R(2)[unfolded white_red])
  have pg: "0 \<le> pg" "pg \<le> 2633286368058409 / 2 ^ 44"
    unfolding pg_def by (rule G(1)) (rule G(2)[unfolded white_green])
  have pb: "0 \<le> pb" "pb \<le> 4091238786489385 / 2 ^ 47"
    unfolding pb_def by (rule B(1)) (rule B(2)[unfolded white_blue])
  have s1: "0 \<le> binary64 (pr + pg)"
    using pr pg by (intro binary64_nonneg) simp
  have "binary64 (pr + pg)
      \<le> binary64 (5365264899825991 / 2 ^ 46 + 2633286368058409 / 2 ^ 44)"
    using pr pg by (intro binary64_mono_small) simp_all
  then have s1u: "binary64 (pr + pg) \<le> 3974602593014907 / 2 ^ 44"
    by (simp only: white_red_green)
  show "0 \<le> binary64 (binary64 (binary64 (binary64 0.299 * r) + binary64 (binary64 0.587 * g))
                       + binary64 (binary64 0.114 * b))"
    using s1 pb unfolding pr_def pg_def pb_def by (intro binary64_nonneg) simp
  have "binary64 (binary64 (pr + pg) + pb)
      \<le> binary64 (3974602593014907 / 2 ^ 44 + 4091238786489385 / 2 ^ 47)"
    using s1 s1u pb by (intro binary64_mono_small) simp_all
  then show "binary64 (binary64 (binary64 (binary64 0.299 * r) + binary64 (binary64 0.587 * g))
                       + binary64 (binary64 0.114 * b)) \<le> 255"
    unfolding pr_def pg_def pb_def by (simp only: white_sum)
qed

lemma spec_Y_double_bounds: "0 \<le> spec_Y_double img p" "spec_Y_double img p \<le> 255"
  unfolding spec_Y_double_def spec_channel_def
  by (rule luma_double_bounds; rule byte_bounds)+

lemma contrast_double_bounds:
  assumes "0 \<le> a" "a \<le> 255" "0 \<le> b" "b \<le> 255"
  shows "0 \<le> binary64 (\<bar>binary64 (a - b)\<bar> / 255)" "binary64 (\<bar>binary64 (a - b)\<bar> / 255) \<le> 1"
proof -
  have "binary64 \<bar>a - b\<bar> \<le> binary64 255"
    using assms by (intro binary64_mono_small) simp_all
  then have d: "\<bar>binary64 (a - b)\<bar> \<le> 255" by (simp add: binary64_abs)
  show "0 \<le> binary64 (\<bar>binary64 (a - b)\<bar> / 255)" by (rule binary64_nonneg) simp
  have "binary64 (\<bar>binary64 (a - b)\<bar> / 255) \<le> binary64 1"
    using d by (intro binary64_mono_small) simp_all
  then show "binary64 (\<bar>binary64 (a - b)\<bar> / 255) \<le> 1" by simp
qed

lemma spec_pair_contrast_double_bounds:
  "0 \<le> spec_pair_contrast_double img pq" "spec_pair_contrast_double img pq \<le> 1"
  unfolding spec_pair_contrast_double_def
  by (rule contrast_double_bounds; rule spec_Y_double_bounds)+

lemma sum_double_bounds:
  assumes "\<And>t. t \<in> set ts \<Longrightarrow> 0 \<le> t \<and> t \<le> 1"
    and "0 \<le> a" and "a \<le> real k" and "k + length ts \<le> 1024"
  shows "0 \<le> sum_double a ts \<and> sum_double a ts \<le> real (k + length ts)"
  using assms
proof (induction ts arbitrary: a k)
  case Nil
  then show ?case by (simp add: sum_double_def)
next
  case (Cons t ts)
  have t: "0 \<le> t" "t \<le> 1" using Cons.prems(1)[of t] by simp_all
  have n: "0 \<le> binary64 (a + t)" using t Cons.prems(2) by (intro binary64_nonneg) simp
  have "binary64 (a + t) \<le> binary64 (real (Suc k))"
    using t Cons.prems(2,3,4) by (intro binary64_mono_small) simp_all
  moreover have "binary64 (real (Suc k)) = real (Suc k)"
    using Cons.prems(4) by (intro binary64_of_nat) simp
  ultimately have u: "binary64 (a + t) \<le> real (Suc k)" by simp
  have "0 \<le> sum_double (binary64 (a + t)) ts
      \<and> sum_double (binary64 (a + t)) ts \<le> real (Suc k + length ts)"
    using Cons.prems(1,4) by (intro Cons.IH[OF _ n u]) simp_all
  then show ?case by (simp add: sum_double_def)
qed

lemma spec_sum_bounds:
  "0 \<le> sum_double 0 (map (spec_pair_contrast_double img) spec_sample_pairs)"
  "sum_double 0 (map (spec_pair_contrast_double img) spec_sample_pairs) \<le> 800"
proof -
  let ?ts = "map (spec_pair_contrast_double img) spec_sample_pairs"
  have "0 \<le> sum_double 0 ?ts \<and> sum_double 0 ?ts \<le> real (0 + length ?ts)"
  proof (rule sum_double_bounds)
    fix t
    assume "t \<in> set ?ts"
    then obtain pq where "t = spec_pair_contrast_double img pq" by auto
    then show "0 \<le> t \<and> t \<le> 1"
      using spec_pair_contrast_double_bounds[of img pq] by simp
  qed (simp_all add: length_spec_sample_pairs)
  then show "0 \<le> sum_double 0 ?ts" "sum_double 0 ?ts \<le> 800"
    by (simp_all add: length_spec_sample_pairs)
qed

lemma spec_average_double_bounds:
  "0 \<le> spec_average_double img" "spec_average_double img \<le> 1"
proof -
  note S = spec_sum_bounds[of img]
  show "0 \<le> spec_average_double img"
    unfolding spec_average_double_def using S(1) by (intro binary64_nonneg) simp
  have "spec_average_double img \<le> binary64 1"
    unfolding spec_average_double_def using S
    by (intro binary64_mono_small) (simp_all add: length_spec_sample_pairs)
  then show "spec_average_double img \<le> 1" by simp
qed

lemma spec_average_double_is_double:
  "binary64 (spec_average_double img) = spec_average_double img"
  unfolding spec_average_double_def using spec_sum_bounds[of img]
  by (intro binary64_idem_small) (simp_all add: length_spec_sample_pairs)

lemma double_above_018:
  assumes "binary64 s = s" and "0 \<le> s" and "s \<le> 1"
  shows "binary64 0.18 < s \<longleftrightarrow> 0.18 < s"
proof
  assume a: "binary64 0.18 < s"
  show "0.18 < s"
  proof (rule ccontr)
    assume "\<not> 0.18 < s"
    then have "s \<le> 0.18" by simp
    then have "binary64 s \<le> binary64 0.18"
      using assms(2) by (intro binary64_mono_small) simp_all
    then show False using a assms(1) by simp
  qed
next
  assume "0.18 < s"
  moreover have "binary64 0.18 < 0.18" unfolding binary64_018 by simp
  ultimately show "binary64 0.18 < s" by simp
qed

lemma accept_iff:
  assumes len: "length img = 258560"
  shows "estimateCardHeuristic True img \<longleftrightarrow> 0.18 < spec_average_double img"
  using double_above_018[OF spec_average_double_is_double spec_average_double_bounds, of img]
  by (simp add: estimateCardHeuristic_def heuristic_outH_value heuristic_outW_def
        edgeScore_320[OF len])


subsection \<open>Two concrete rasters\<close>

lemma length_white_row_image: "length white_row_image = 258560"
  by (simp add: white_row_image_def)

lemma byte_numerals: "byte 0 = 0" "byte 255 = 255"
  by (simp_all add: byte_def)

lemma white_row_channel:
  assumes "x < 320" and "y < 202" and "c < 3"
  shows "spec_channel white_row_image (x, y) c = (if y = 2 then 255 else 0)"
proof -
  define i where "i = 4 * (320 * y + x) + c"
  have i: "i < 258560" using assms by (simp add: i_def)
  have "white_row_image ! i = (if 2560 \<le> i \<and> i < 3840 then 255 else 0)"
    using i by (simp add: white_row_image_def)
  moreover have "(2560 \<le> i \<and> i < 3840) \<longleftrightarrow> y = 2"
    using assms by (auto simp add: i_def)
  ultimately show ?thesis
    by (simp add: spec_channel_def i_def byte_numerals)
qed

lemma white_row_Y:
  assumes "x < 320" and "y < 202"
  shows "spec_Y_double white_row_image (x, y) = (if y = 2 then 255 else 0)"
  unfolding spec_Y_double_def
  by (simp only: white_row_channel[OF assms] white_luma split: if_split) simp


lemma white_row_top_bottom:
  assumes "s < 200"
  shows "map (spec_pair_contrast_double white_row_image) (spec_top_bottom s) = [1, 0]"
  using sample_x_bound[OF assms]
  by (simp add: spec_top_bottom_def Let_def spec_pair_contrast_double_def white_row_Y)

lemma white_row_left_right:
  assumes "s < 200"
  shows "map (spec_pair_contrast_double white_row_image) (spec_left_right s) = [0, 0]"
  using sample_y_bound[OF assms]
  by (simp add: spec_left_right_def Let_def spec_pair_contrast_double_def white_row_Y)

lemma sum_double_white_top_bottom:
  assumes "\<And>s. s \<in> set ss \<Longrightarrow> s < 200" and "k + length ss \<le> 1024"
  shows "sum_double (real k)
           (map (spec_pair_contrast_double white_row_image) (concat (map spec_top_bottom ss)))
         = real (k + length ss)"
  using assms
proof (induction ss arbitrary: k)
  case Nil
  then show ?case by (simp add: sum_double_def)
next
  case (Cons s ss)
  have s: "s < 200" using Cons.prems(1) by simp
  have e1: "real k + 1 = real (Suc k)" by simp
  have e2: "binary64 (real (Suc k)) = real (Suc k)"
    using Cons.prems(2) by (intro binary64_of_nat) simp
  have e3: "real (Suc k) + 0 = real (Suc k)" by simp
  have step: "sum_double (real k) [1, 0] = real (Suc k)"
    by (simp only: sum_double_def foldl.simps e1 e2 e3)
  have ih: "sum_double (real (Suc k))
           (map (spec_pair_contrast_double white_row_image) (concat (map spec_top_bottom ss)))
         = real (Suc k + length ss)"
    using Cons.prems by (intro Cons.IH) simp_all
  show ?case
    by (simp only: list.map concat.simps map_append white_row_top_bottom[OF s]
          sum_double_append step ih)
       simp
qed

lemma sum_double_white_left_right:
  assumes "\<And>s. s \<in> set ss \<Longrightarrow> s < 200" and "k \<le> 1024"
  shows "sum_double (real k)
           (map (spec_pair_contrast_double white_row_image) (concat (map spec_left_right ss)))
         = real k"
  using assms
proof (induction ss)
  case Nil
  then show ?case by (simp add: sum_double_def)
next
  case (Cons s ss)
  have s: "s < 200" using Cons.prems(1) by simp
  have e1: "real k + 0 = real k" by simp
  have e2: "binary64 (real k) = real k"
    using Cons.prems(2) by (intro binary64_of_nat) simp
  have step: "sum_double (real k) [0, 0] = real k"
    by (simp only: sum_double_def foldl.simps e1 e2)
  have ih: "sum_double (real k)
           (map (spec_pair_contrast_double white_row_image) (concat (map spec_left_right ss)))
         = real k"
    using Cons.prems by (intro Cons.IH) simp_all
  show ?case
    by (simp only: list.map concat.simps map_append white_row_left_right[OF s]
          sum_double_append step ih)
qed

lemma binary64_quarter: "binary64 (1 / 4) = 1 / 4"
  using binary64_eval[of "1 / 4" "- 2"] by (simp add: round_half_even_def power_int_minus)

lemma white_row_score: "spec_average_double white_row_image = 1 / 4"
proof -
  have "sum_double (real 0)
           (map (spec_pair_contrast_double white_row_image)
              (concat (map spec_top_bottom [0..<200])))
         = real (0 + length [0..<200])"
    by (rule sum_double_white_top_bottom) simp_all
  then have tb: "sum_double 0
           (map (spec_pair_contrast_double white_row_image)
              (concat (map spec_top_bottom [0..<200]))) = real 200"
    by simp
  have lr: "sum_double (real 200)
           (map (spec_pair_contrast_double white_row_image)
              (concat (map spec_left_right [0..<200]))) = real 200"
    by (rule sum_double_white_left_right) simp_all
  have "sum_double 0 (map (spec_pair_contrast_double white_row_image) spec_sample_pairs) = 200"
    unfolding spec_sample_pairs_def map_append sum_double_append tb lr by simp
  then show ?thesis
    by (simp add: spec_average_double_def length_spec_sample_pairs binary64_quarter)
qed

lemma sum_double_zeros:
  assumes "\<And>t. t \<in> set ts \<Longrightarrow> t = 0"
  shows "sum_double 0 ts = 0"
  using assms
proof (induction ts)
  case Nil
  show ?case by (simp add: sum_double_def)
next
  case (Cons t ts)
  have t: "t = 0" using Cons.prems by simp
  have "sum_double 0 ts = 0" using Cons.prems by (intro Cons.IH) simp
  then show ?case by (simp add: sum_double_def t)
qed

lemma solid_channel:
  assumes "x < 320" and "y < 202" and "c < 3"
  shows "spec_channel (replicate 258560 v) (x, y) c = byte v"
  using assms by (simp add: spec_channel_def)

lemma solid_Y:
  assumes "in_raster p" and "in_raster q"
  shows "spec_Y_double (replicate 258560 v) p = spec_Y_double (replicate 258560 v) q"
  using assms solid_channel[of "fst p" "snd p" _ v] solid_channel[of "fst q" "snd q" _ v]
  by (simp add: spec_Y_double_def in_raster_def)

lemma solid_score: "spec_average_double (replicate 258560 v) = 0"
proof -
  have "sum_double 0 (map (spec_pair_contrast_double (replicate 258560 v)) spec_sample_pairs) = 0"
  proof (rule sum_double_zeros)
    fix t
    assume "t \<in> set (map (spec_pair_contrast_double (replicate 258560 v)) spec_sample_pairs)"
    then obtain pq where pq: "pq \<in> set spec_sample_pairs"
      and t: "t = spec_pair_contrast_double (replicate 258560 v) pq"
      by auto
    have "spec_Y_double (replicate 258560 v) (fst pq) = spec_Y_double (replicate 258560 v) (snd pq)"
      using spec_sample_pairs_in_raster[OF pq] by (intro solid_Y) simp_all
    then show "t = 0" by (simp add: t spec_pair_contrast_double_def)
  qed
  then show ?thesis by (simp add: spec_average_double_def)
qed


subsection \<open>Rounding error\<close>

lemma binary64_err_pos:
  assumes x: "0 < x" and k: "- 1021 \<le> k" "k \<le> 1024" and xk: "x < pow2 k"
  shows "\<bar>binary64 x - x\<bar> \<le> pow2 (k - 54)"
proof -
  define E where "E = exponent x"
  define q where "q = pow2 (E - 52)"
  have q: "0 < q" by (simp add: q_def)
  have xt: "x < pow2 1024"
    using xk pow2_mono[OF k(2)] by linarith
  have E: "E \<le> k - 1"
  proof (cases "pow2 (- 1022) \<le> x")
    case True
    then have "pow2 E \<le> x" unfolding E_def by (rule exponent_spec(3)[OF x xt])
    then have "pow2 E < pow2 k" using xk by linarith
    then have "E < k" by (rule pow2_less_cancel)
    then show ?thesis by simp
  next
    case False
    then have "E = - 1022" unfolding E_def using exponent_spec(4)[OF x xt] by simp
    then show ?thesis using k(1) by simp
  qed
  define m where "m = round_half_even (x / q)"
  have b: "binary64 x = q * of_int m"
    unfolding q_def m_def E_def by (rule binary64_pos[OF x])
  have "\<bar>of_int m - x / q\<bar> \<le> 1 / 2" unfolding m_def by (rule rhe_err)
  then have "q * \<bar>of_int m - x / q\<bar> \<le> q * (1 / 2)"
    using q by (intro mult_left_mono) simp_all
  moreover have "q * \<bar>of_int m - x / q\<bar> = \<bar>q * of_int m - x\<bar>"
  proof -
    have "q * (of_int m - x / q) = q * of_int m - x"
      using q by (simp add: right_diff_distrib)
    then have "\<bar>q * of_int m - x\<bar> = \<bar>q\<bar> * \<bar>of_int m - x / q\<bar>"
      by (simp only: abs_mult[symmetric])
    then show ?thesis using q by simp
  qed
  ultimately have e: "\<bar>binary64 x - x\<bar> \<le> q / 2" by (simp add: b)
  have "pow2 (E - 52) = 2 * pow2 (E - 53)"
    using pow2_Suc[of "E - 53"] by simp
  then have "q / 2 = pow2 (E - 53)" by (simp add: q_def)
  moreover have "pow2 (E - 53) \<le> pow2 (k - 54)"
    using E by (intro pow2_mono) simp
  ultimately show ?thesis using e by simp
qed

lemma binary64_err:
  assumes k: "- 1021 \<le> k" "k \<le> 1024" and xk: "\<bar>x\<bar> < pow2 k"
  shows "\<bar>binary64 x - x\<bar> \<le> pow2 (k - 54)"
proof -
  consider "x = 0" | "0 < x" | "x < 0" by linarith
  then show ?thesis
  proof cases
    case 1
    then show ?thesis by simp
  next
    case 2
    then show ?thesis using binary64_err_pos[OF 2 k] xk by simp
  next
    case 3
    then have "\<bar>binary64 (- x) - (- x)\<bar> \<le> pow2 (k - 54)"
      using xk by (intro binary64_err_pos[OF _ k]) simp_all
    then show ?thesis by (simp add: binary64_minus)
  qed
qed

lemma binary64_err_2:
  assumes "\<bar>x\<bar> < 2"
  shows "\<bar>binary64 x - x\<bar> \<le> 1 / 2 ^ 53"
  using binary64_err[of 1 x] assms by (simp add: power_int_minus field_simps)

lemma binary64_err_256:
  assumes "\<bar>x\<bar> < 256"
  shows "\<bar>binary64 x - x\<bar> \<le> 1 / 2 ^ 46"
  using binary64_err[of 8 x] assms by (simp add: power_int_minus field_simps)

lemma binary64_err_1024:
  assumes "\<bar>x\<bar> < 1024"
  shows "\<bar>binary64 x - x\<bar> \<le> 1 / 2 ^ 44"
  using binary64_err[of 10 x] assms by (simp add: power_int_minus field_simps)


lemma luma_constants_err:
  "\<bar>binary64 0.299 - 0.299\<bar> \<le> 1 / 2 ^ 54"
  "\<bar>binary64 0.587 - 0.587\<bar> \<le> 1 / 2 ^ 54"
  "\<bar>binary64 0.114 - 0.114\<bar> \<le> 1 / 2 ^ 54"
  unfolding binary64_0299 binary64_0587 binary64_0114 by simp_all

lemma weighted_err:
  assumes c: "0 \<le> c'" "c' \<le> 1" "\<bar>c' - c\<bar> \<le> 1 / 2 ^ 54" and r: "0 \<le> r" "r \<le> 255"
  shows "\<bar>binary64 (c' * r) - c * r\<bar> \<le> 2 / 2 ^ 46"
proof -
  have "0 \<le> c' * r" using c r by simp
  moreover have "c' * r \<le> 1 * 255" using c r by (intro mult_mono) simp_all
  ultimately have "\<bar>c' * r\<bar> < 256" by simp
  then have e1: "\<bar>binary64 (c' * r) - c' * r\<bar> \<le> 1 / 2 ^ 46" by (rule binary64_err_256)
  have "\<bar>c' - c\<bar> * r \<le> (1 / 2 ^ 54) * 255"
    using c r by (intro mult_mono) simp_all
  moreover have "\<bar>c' * r - c * r\<bar> = \<bar>c' - c\<bar> * r"
    using r by (simp add: left_diff_distrib[symmetric] abs_mult)
  ultimately have e2: "\<bar>c' * r - c * r\<bar> \<le> 1 / 2 ^ 46" by simp
  show ?thesis using e1 e2 by linarith
qed

lemma luma_err:
  assumes "0 \<le> r" "r \<le> 255" "0 \<le> g" "g \<le> 255" "0 \<le> b" "b \<le> 255"
  shows "\<bar>binary64 (binary64 (binary64 (binary64 0.299 * r) + binary64 (binary64 0.587 * g))
                   + binary64 (binary64 0.114 * b))
          - (0.299 * r + 0.587 * g + 0.114 * b)\<bar> \<le> 1 / 2 ^ 43"
proof -
  have c1: "0 \<le> binary64 0.299" "binary64 0.299 \<le> 1" unfolding binary64_0299 by simp_all
  have c2: "0 \<le> binary64 0.587" "binary64 0.587 \<le> 1" unfolding binary64_0587 by simp_all
  have c3: "0 \<le> binary64 0.114" "binary64 0.114 \<le> 1" unfolding binary64_0114 by simp_all
  note R = weighted_double_bounds[OF c1 assms(1,2)]
  note G = weighted_double_bounds[OF c2 assms(3,4)]
  note B = weighted_double_bounds[OF c3 assms(5,6)]
  define pr where "pr = binary64 (binary64 0.299 * r)"
  define pg where "pg = binary64 (binary64 0.587 * g)"
  define pb where "pb = binary64 (binary64 0.114 * b)"
  define er where "er = 0.299 * r"
  define eg where "eg = 0.587 * g"
  define eb where "eb = 0.114 * b"
  have pr: "0 \<le> pr" "pr \<le> 5365264899825991 / 2 ^ 46"
    unfolding pr_def by (rule R(1)) (rule R(2)[unfolded white_red])
  have pg: "0 \<le> pg" "pg \<le> 2633286368058409 / 2 ^ 44"
    unfolding pg_def by (rule G(1)) (rule G(2)[unfolded white_green])
  have pb: "0 \<le> pb" "pb \<le> 4091238786489385 / 2 ^ 47"
    unfolding pb_def by (rule B(1)) (rule B(2)[unfolded white_blue])
  have s1: "0 \<le> binary64 (pr + pg)"
    using pr pg by (intro binary64_nonneg) simp
  have "binary64 (pr + pg)
      \<le> binary64 (5365264899825991 / 2 ^ 46 + 2633286368058409 / 2 ^ 44)"
    using pr pg by (intro binary64_mono_small) simp_all
  then have s1u: "binary64 (pr + pg) \<le> 3974602593014907 / 2 ^ 44"
    by (simp only: white_red_green)
  have dr: "\<bar>pr - er\<bar> \<le> 2 / 2 ^ 46"
    unfolding pr_def er_def by (rule weighted_err[OF c1 luma_constants_err(1) assms(1,2)])
  have dg: "\<bar>pg - eg\<bar> \<le> 2 / 2 ^ 46"
    unfolding pg_def eg_def by (rule weighted_err[OF c2 luma_constants_err(2) assms(3,4)])
  have db: "\<bar>pb - eb\<bar> \<le> 2 / 2 ^ 46"
    unfolding pb_def eb_def by (rule weighted_err[OF c3 luma_constants_err(3) assms(5,6)])
  have "\<bar>pr + pg\<bar> < 256" using pr pg by simp
  then have d1: "\<bar>binary64 (pr + pg) - (pr + pg)\<bar> \<le> 1 / 2 ^ 46" by (rule binary64_err_256)
  have "\<bar>binary64 (pr + pg) + pb\<bar> < 256" using s1 s1u pb by simp
  then have d2: "\<bar>binary64 (binary64 (pr + pg) + pb) - (binary64 (pr + pg) + pb)\<bar> \<le> 1 / 2 ^ 46"
    by (rule binary64_err_256)
  have "\<bar>binary64 (binary64 (pr + pg) + pb) - (er + eg + eb)\<bar> \<le> 8 / 2 ^ 46"
    using dr dg db d1 d2 by linarith
  then show ?thesis
    unfolding pr_def pg_def pb_def er_def eg_def eb_def by simp
qed

lemma spec_Y_err: "\<bar>spec_Y_double img p - spec_Y img p\<bar> \<le> 1 / 2 ^ 43"
  unfolding spec_Y_double_def spec_Y_def spec_channel_def
  by (rule luma_err; rule byte_bounds)

lemma contrast_err:
  assumes a': "0 \<le> a'" "a' \<le> 255" and b': "0 \<le> b'" "b' \<le> 255"
    and ea: "\<bar>a' - a\<bar> \<le> 1 / 2 ^ 43" and eb: "\<bar>b' - b\<bar> \<le> 1 / 2 ^ 43"
  shows "\<bar>binary64 (\<bar>binary64 (a' - b')\<bar> / 255) - \<bar>a - b\<bar> / 255\<bar> \<le> 1 / 2 ^ 48"
proof -
  define d where "d = binary64 (a' - b')"
  have "\<bar>a' - b'\<bar> < 256" using a' b' by simp
  then have e1: "\<bar>d - (a' - b')\<bar> \<le> 1 / 2 ^ 46" unfolding d_def by (rule binary64_err_256)
  have "binary64 \<bar>a' - b'\<bar> \<le> binary64 255"
    using a' b' by (intro binary64_mono_small) simp_all
  then have dm: "\<bar>d\<bar> \<le> 255" by (simp add: d_def binary64_abs)
  have "\<bar>d - (a - b)\<bar> \<le> 1 / 2 ^ 46 + 1 / 2 ^ 43 + 1 / 2 ^ 43"
    using e1 ea eb by linarith
  moreover have "\<bar>\<bar>d\<bar> - \<bar>a - b\<bar>\<bar> \<le> \<bar>d - (a - b)\<bar>" by (rule abs_triangle_ineq3)
  ultimately have e2: "\<bar>\<bar>d\<bar> - \<bar>a - b\<bar>\<bar> \<le> 1 / 2 ^ 46 + 1 / 2 ^ 43 + 1 / 2 ^ 43" by linarith
  have "\<bar>\<bar>d\<bar> / 255 - \<bar>a - b\<bar> / 255\<bar> = \<bar>\<bar>d\<bar> - \<bar>a - b\<bar>\<bar> / 255"
    by (simp add: diff_divide_distrib[symmetric])
  also have "\<dots> \<le> (1 / 2 ^ 46 + 1 / 2 ^ 43 + 1 / 2 ^ 43) / 255"
    using e2 by (rule divide_right_mono) simp
  finally have e3: "\<bar>\<bar>d\<bar> / 255 - \<bar>a - b\<bar> / 255\<bar> \<le> (1 / 2 ^ 46 + 1 / 2 ^ 43 + 1 / 2 ^ 43) / 255" .
  have "\<bar>\<bar>d\<bar> / 255\<bar> < 2" using dm by simp
  then have e4: "\<bar>binary64 (\<bar>d\<bar> / 255) - \<bar>d\<bar> / 255\<bar> \<le> 1 / 2 ^ 53" by (rule binary64_err_2)
  have n: "(1 / 2 ^ 46 + 1 / 2 ^ 43 + 1 / 2 ^ 43) / 255 + 1 / 2 ^ 53 \<le> (1::real) / 2 ^ 48"
    by simp
  show ?thesis
    using e3 e4 n unfolding d_def by linarith
qed

lemma spec_pair_contrast_err:
  "\<bar>spec_pair_contrast_double img pq - spec_pair_contrast img pq\<bar> \<le> 1 / 2 ^ 48"
  unfolding spec_pair_contrast_double_def spec_pair_contrast_def
  by (rule contrast_err; (rule spec_Y_double_bounds spec_Y_err)?)

lemma sum_double_err:
  assumes f: "\<And>x. x \<in> set xs \<Longrightarrow> 0 \<le> f' x \<and> f' x \<le> 1 \<and> \<bar>f' x - f x\<bar> \<le> d"
    and a: "0 \<le> a'" "a' \<le> real k" "\<bar>a' - a\<bar> \<le> e" and k: "k + length xs \<le> 1023"
  shows "\<bar>sum_double a' (map f' xs) - (a + (\<Sum>x\<leftarrow>xs. f x))\<bar>
           \<le> e + real (length xs) * (d + 1 / 2 ^ 44)"
  using assms
proof (induction xs arbitrary: a' a k e)
  case Nil
  then show ?case by (simp add: sum_double_def)
next
  case (Cons x xs)
  have x: "0 \<le> f' x" "f' x \<le> 1" "\<bar>f' x - f x\<bar> \<le> d"
    using Cons.prems(1)[of x] by simp_all
  define a2 where "a2 = binary64 (a' + f' x)"
  have n: "0 \<le> a2" unfolding a2_def using x Cons.prems(2) by (intro binary64_nonneg) simp
  have "a2 \<le> binary64 (real (Suc k))"
    unfolding a2_def using x Cons.prems(2,3,5) by (intro binary64_mono_small) simp_all
  moreover have "binary64 (real (Suc k)) = real (Suc k)"
    using Cons.prems(5) by (intro binary64_of_nat) simp
  ultimately have u: "a2 \<le> real (Suc k)" by simp
  have "real k + 1 < 1024" using Cons.prems(5) by simp
  then have "\<bar>a' + f' x\<bar> < 1024" using x Cons.prems(2,3) by simp
  then have "\<bar>a2 - (a' + f' x)\<bar> \<le> 1 / 2 ^ 44" unfolding a2_def by (rule binary64_err_1024)
  then have e2: "\<bar>a2 - (a + f x)\<bar> \<le> e + (d + 1 / 2 ^ 44)"
    using x(3) Cons.prems(4) by linarith
  define c where "c = d + 1 / 2 ^ 44"
  have ih: "\<bar>sum_double a2 (map f' xs) - (a + f x + (\<Sum>x\<leftarrow>xs. f x))\<bar>
      \<le> (e + c) + real (length xs) * c"
    unfolding c_def using Cons.prems(1,5) by (intro Cons.IH[OF _ n u e2]) simp_all
  have g: "(e + c) + real (length xs) * c = e + real (length (x # xs)) * c"
    by (simp add: algebra_simps)
  have l: "sum_double a' (map f' (x # xs)) = sum_double a2 (map f' xs)"
    by (simp add: sum_double_def a2_def)
  have r: "a + (\<Sum>x\<leftarrow>x # xs. f x) = a + f x + (\<Sum>x\<leftarrow>xs. f x)"
    by simp
  show ?case
    unfolding l r c_def[symmetric] by (rule ih[unfolded g])
qed

lemma spec_average_err: "\<bar>spec_average_double img - spec_average img\<bar> \<le> 1 / 10 ^ 12"
proof -
  define S' where "S' = sum_double 0 (map (spec_pair_contrast_double img) spec_sample_pairs)"
  define S where "S = (\<Sum>pq\<leftarrow>spec_sample_pairs. spec_pair_contrast img pq)"
  have "\<bar>sum_double 0 (map (spec_pair_contrast_double img) spec_sample_pairs)
          - (0 + (\<Sum>pq\<leftarrow>spec_sample_pairs. spec_pair_contrast img pq))\<bar>
        \<le> 0 + real (length spec_sample_pairs) * (1 / 2 ^ 48 + 1 / 2 ^ 44)"
    using spec_pair_contrast_double_bounds[of img] spec_pair_contrast_err[of img]
    by (intro sum_double_err[where k = 0]) (simp_all add: length_spec_sample_pairs)
  then have e1: "\<bar>S' - S\<bar> \<le> 800 * (1 / 2 ^ 48 + 1 / 2 ^ 44)"
    by (simp add: S'_def S_def length_spec_sample_pairs)
  have b: "0 \<le> S'" "S' \<le> 800" unfolding S'_def by (rule spec_sum_bounds)+
  then have "\<bar>S' / 800\<bar> < 2" by simp
  then have e2: "\<bar>binary64 (S' / 800) - S' / 800\<bar> \<le> 1 / 2 ^ 53" by (rule binary64_err_2)
  have "\<bar>S' / 800 - S / 800\<bar> = \<bar>S' - S\<bar> / 800"
    by (simp add: diff_divide_distrib[symmetric])
  also have "\<dots> \<le> (800 * (1 / 2 ^ 48 + 1 / 2 ^ 44)) / 800"
    using e1 by (rule divide_right_mono) simp
  finally have e3: "\<bar>S' / 800 - S / 800\<bar> \<le> 1 / 2 ^ 48 + 1 / 2 ^ 44" by simp
  have n: "1 / 2 ^ 48 + 1 / 2 ^ 44 + 1 / 2 ^ 53 \<le> (1::real) / 10 ^ 12" by simp
  have "\<bar>binary64 (S' / 800) - S / 800\<bar> \<le> 1 / 10 ^ 12"
    using e2 e3 n by linarith
  then show ?thesis
    by (simp add: spec_average_double_def spec_average_def S'_def S_def length_spec_sample_pairs)
qed


subsection \<open>A raster with one red pixel\<close>

lemma length_red_pixel_image: "length red_pixel_image = 258560"
  by (simp add: red_pixel_image_def)

lemma red_luma_double: "binary64 red_luma = red_luma"
  unfolding red_luma_def
  using binary64_eval[of "5365264899825991 / 2 ^ 46" 6]
  by (simp add: round_half_even_def power_int_minus)

lemma red_luma_value: "binary64 (binary64 0.299 * 255) = red_luma"
  unfolding red_luma_def by (rule white_red)

lemma red_contrast_value: "binary64 (red_luma / 255) = red_contrast"
  unfolding red_luma_def red_contrast_def
  using binary64_eval[of "5365264899825991 / 2 ^ 46 / 255" "- 2"]
  by (simp add: round_half_even_def power_int_minus)

lemma red_contrast_double: "binary64 red_contrast = red_contrast"
  unfolding red_contrast_def
  using binary64_eval[of "5386305154335113 / 2 ^ 54" "- 2"]
  by (simp add: round_half_even_def power_int_minus)

lemma red_contrast_twice: "binary64 (red_contrast + red_contrast) = 2 * red_contrast"
  unfolding red_contrast_def
  using binary64_eval[of "5386305154335113 / 2 ^ 54 + 5386305154335113 / 2 ^ 54" "- 1"]
  by (simp add: round_half_even_def power_int_minus)

lemma red_contrast_twice_double: "binary64 (2 * red_contrast) = 2 * red_contrast"
  unfolding red_contrast_def
  using binary64_eval[of "2 * (5386305154335113 / 2 ^ 54)" "- 1"]
  by (simp add: round_half_even_def power_int_minus)

lemma red_contrast_thrice:
  "binary64 (2 * red_contrast + red_contrast) = 4039728865751335 / 2 ^ 52"
  unfolding red_contrast_def
  using binary64_eval[of "2 * (5386305154335113 / 2 ^ 54) + 5386305154335113 / 2 ^ 54" "- 1"]
  by (simp add: round_half_even_def power_int_minus)

lemma red_sum_double: "binary64 (4039728865751335 / 2 ^ 52) = 4039728865751335 / 2 ^ 52"
  using binary64_eval[of "4039728865751335 / 2 ^ 52" "- 1"]
  by (simp add: round_half_even_def power_int_minus)

lemma red_score_value: "binary64 (4039728865751335 / 2 ^ 52 / 800) = 5170852948161709 / 2 ^ 62"
  using binary64_eval[of "4039728865751335 / 2 ^ 52 / 800" "- 10"]
  by (simp add: round_half_even_def power_int_minus)

lemma red_pixel_channel:
  assumes "x < 320" and "y < 202" and "c < 3"
  shows "spec_channel red_pixel_image (x, y) c = (if x = 2 \<and> y = 2 \<and> c = 0 then 255 else 0)"
proof -
  define i where "i = 4 * (320 * y + x) + c"
  have i: "i < 258560" using assms by (simp add: i_def)
  have "red_pixel_image ! i = (if i = 2568 then 255 else 0)"
    using i by (simp add: red_pixel_image_def)
  moreover have "i = 2568 \<longleftrightarrow> x = 2 \<and> y = 2 \<and> c = 0"
  proof -
    consider "y \<le> 1" | "3 \<le> y" | "y = 2" "x \<le> 1" | "y = 2" "3 \<le> x" | "y = 2" "x = 2"
      by linarith
    then show ?thesis
    proof cases
      case 1
      then have "i < 2568" using assms unfolding i_def by simp
      then show ?thesis using 1 by simp
    next
      case 2
      then have "2568 < i" unfolding i_def by simp
      then show ?thesis using 2 by simp
    next
      case 3
      then have "i < 2568" using assms unfolding i_def by simp
      then show ?thesis using 3 by simp
    next
      case 4
      then have "2568 < i" unfolding i_def by simp
      then show ?thesis using 4 by simp
    next
      case 5
      then have "i = 2568 + c" unfolding i_def by simp
      then show ?thesis using 5 by simp
    qed
  qed
  ultimately show ?thesis
    by (simp add: spec_channel_def i_def byte_numerals)
qed

lemma red_pixel_Y_double:
  assumes "x < 320" and "y < 202"
  shows "spec_Y_double red_pixel_image (x, y) = (if x = 2 \<and> y = 2 then red_luma else 0)"
proof (cases "x = 2 \<and> y = 2")
  case True
  have "spec_Y_double red_pixel_image (x, y)
      = binary64 (binary64 (binary64 (binary64 0.299 * 255) + binary64 (binary64 0.587 * 0))
                  + binary64 (binary64 0.114 * 0))"
    unfolding spec_Y_double_def using True by (simp add: red_pixel_channel)
  also have "\<dots> = red_luma"
    by (simp only: mult_zero_right binary64_zero add_0_right red_luma_value red_luma_double)
  finally show ?thesis using True by simp
next
  case False
  have ch: "spec_channel red_pixel_image (x, y) c = 0" if "c < 3" for c
    using False red_pixel_channel[OF assms that] by auto
  have "spec_Y_double red_pixel_image (x, y) = 0"
    unfolding spec_Y_double_def by (simp add: ch)
  then show ?thesis using False by (simp only: if_False)
qed

lemma red_pixel_Y:
  assumes "x < 320" and "y < 202"
  shows "spec_Y red_pixel_image (x, y) = (if x = 2 \<and> y = 2 then 0.299 * 255 else 0)"
  unfolding spec_Y_def using assms by (simp add: red_pixel_channel)

lemma red_pixel_contrast_double:
  assumes "in_raster q" and "q \<noteq> (2, 2)"
  shows "spec_pair_contrast_double red_pixel_image ((2, 2), q) = red_contrast"
proof -
  have q: "spec_Y_double red_pixel_image q = 0"
    using assms red_pixel_Y_double[of "fst q" "snd q"]
    by (cases q) (auto simp add: in_raster_def)
  have p: "spec_Y_double red_pixel_image (2, 2) = red_luma"
    using red_pixel_Y_double[of 2 2] by simp
  have a: "\<bar>red_luma\<bar> = red_luma" by (simp add: red_luma_def)
  show ?thesis
    unfolding spec_pair_contrast_double_def fst_conv snd_conv p q
    by (simp only: diff_zero red_luma_double a red_contrast_value)
qed

lemma red_pixel_contrast:
  assumes "in_raster q" and "q \<noteq> (2, 2)"
  shows "spec_pair_contrast red_pixel_image ((2, 2), q) = 299 / 1000"
proof -
  have q: "spec_Y red_pixel_image q = 0"
    using assms red_pixel_Y[of "fst q" "snd q"]
    by (cases q) (auto simp add: in_raster_def)
  have p: "spec_Y red_pixel_image (2, 2) = 0.299 * 255"
    using red_pixel_Y[of 2 2] by simp
  show ?thesis
    unfolding spec_pair_contrast_def fst_conv snd_conv p q by simp
qed

lemma red_pixel_dark_pair:
  assumes "in_raster p" and "p \<noteq> (2, 2)" and "in_raster q" and "q \<noteq> (2, 2)"
  shows "spec_pair_contrast_double red_pixel_image (p, q) = 0"
    and "spec_pair_contrast red_pixel_image (p, q) = 0"
proof -
  have "spec_Y_double red_pixel_image p = 0" "spec_Y_double red_pixel_image q = 0"
    using assms red_pixel_Y_double[of "fst p" "snd p"] red_pixel_Y_double[of "fst q" "snd q"]
    by (cases p; cases q; auto simp add: in_raster_def)+
  then show "spec_pair_contrast_double red_pixel_image (p, q) = 0"
    by (simp add: spec_pair_contrast_double_def)
  have "spec_Y red_pixel_image p = 0" "spec_Y red_pixel_image q = 0"
    using assms red_pixel_Y[of "fst p" "snd p"] red_pixel_Y[of "fst q" "snd q"]
    by (cases p; cases q; auto simp add: in_raster_def)+
  then show "spec_pair_contrast red_pixel_image (p, q) = 0"
    by (simp add: spec_pair_contrast_def)
qed

lemma sample_x_first:
  fixes s :: nat
  shows "2 + (316 * s) div 200 = 2 \<longleftrightarrow> s = 0"
proof -
  have "316 * s < 200 \<longleftrightarrow> s = 0" by auto
  then show ?thesis by (simp add: div_eq_0_iff)
qed

lemma sample_y_first:
  fixes s :: nat
  shows "2 + (198 * s) div 200 = 2 \<longleftrightarrow> s \<le> 1"
proof -
  have "198 * s < 200 \<longleftrightarrow> s \<le> 1" by auto
  then show ?thesis by (simp add: div_eq_0_iff)
qed

lemma red_pixel_top_bottom:
  assumes "s < 200"
  shows "map (spec_pair_contrast_double red_pixel_image) (spec_top_bottom s)
           = [if s = 0 then red_contrast else 0, 0]"
    and "map (spec_pair_contrast red_pixel_image) (spec_top_bottom s)
           = [if s = 0 then 299 / 1000 else 0, 0]"
proof -
  define x where "x = 2 + (316 * s) div 200"
  have x: "x < 320" unfolding x_def using assms by (rule sample_x_bound)
  have x2: "x = 2 \<longleftrightarrow> s = 0" unfolding x_def by (rule sample_x_first)
  have tb: "spec_top_bottom s = [((x, 2), (x, 5)), ((x, 199), (x, 196))]"
    by (simp add: spec_top_bottom_def x_def)
  have r: "in_raster (x, 2)" "in_raster (x, 5)" "in_raster (x, 199)" "in_raster (x, 196)"
    using x by (simp_all add: in_raster_def)
  have bottom: "spec_pair_contrast_double red_pixel_image ((x, 199), (x, 196)) = 0"
    "spec_pair_contrast red_pixel_image ((x, 199), (x, 196)) = 0"
    using r by (simp_all add: red_pixel_dark_pair)
  have top: "spec_pair_contrast_double red_pixel_image ((x, 2), (x, 5))
               = (if s = 0 then red_contrast else 0)"
    "spec_pair_contrast red_pixel_image ((x, 2), (x, 5)) = (if s = 0 then 299 / 1000 else 0)"
  proof -
    show "spec_pair_contrast_double red_pixel_image ((x, 2), (x, 5))
               = (if s = 0 then red_contrast else 0)"
    proof (cases "s = 0")
      case True
      then have "x = 2" using x2 by simp
      then show ?thesis
        using True red_pixel_contrast_double[of "(x, 5)"] r by simp
    next
      case False
      then have "x \<noteq> 2" using x2 by simp
      then show ?thesis
        using False r by (simp add: red_pixel_dark_pair)
    qed
    show "spec_pair_contrast red_pixel_image ((x, 2), (x, 5))
               = (if s = 0 then 299 / 1000 else 0)"
    proof (cases "s = 0")
      case True
      then have "x = 2" using x2 by simp
      then show ?thesis
        using True red_pixel_contrast[of "(x, 5)"] r by simp
    next
      case False
      then have "x \<noteq> 2" using x2 by simp
      then show ?thesis
        using False r by (simp add: red_pixel_dark_pair)
    qed
  qed
  show "map (spec_pair_contrast_double red_pixel_image) (spec_top_bottom s)
           = [if s = 0 then red_contrast else 0, 0]"
    by (simp only: tb list.map top bottom)
  show "map (spec_pair_contrast red_pixel_image) (spec_top_bottom s)
           = [if s = 0 then 299 / 1000 else 0, 0]"
    by (simp only: tb list.map top bottom)
qed

lemma red_pixel_left_right:
  assumes "s < 200"
  shows "map (spec_pair_contrast_double red_pixel_image) (spec_left_right s)
           = [if s \<le> 1 then red_contrast else 0, 0]"
    and "map (spec_pair_contrast red_pixel_image) (spec_left_right s)
           = [if s \<le> 1 then 299 / 1000 else 0, 0]"
proof -
  define y where "y = 2 + (198 * s) div 200"
  have y: "y < 202" unfolding y_def using assms by (rule sample_y_bound)
  have y2: "y = 2 \<longleftrightarrow> s \<le> 1" unfolding y_def by (rule sample_y_first)
  have lr: "spec_left_right s = [((2, y), (5, y)), ((317, y), (314, y))]"
    by (simp add: spec_left_right_def y_def)
  have r: "in_raster (2, y)" "in_raster (5, y)" "in_raster (317, y)" "in_raster (314, y)"
    using y by (simp_all add: in_raster_def)
  have right: "spec_pair_contrast_double red_pixel_image ((317, y), (314, y)) = 0"
    "spec_pair_contrast red_pixel_image ((317, y), (314, y)) = 0"
    using r by (simp_all add: red_pixel_dark_pair)
  have left: "spec_pair_contrast_double red_pixel_image ((2, y), (5, y))
               = (if s \<le> 1 then red_contrast else 0)"
    "spec_pair_contrast red_pixel_image ((2, y), (5, y)) = (if s \<le> 1 then 299 / 1000 else 0)"
  proof -
    show "spec_pair_contrast_double red_pixel_image ((2, y), (5, y))
               = (if s \<le> 1 then red_contrast else 0)"
    proof (cases "s \<le> 1")
      case True
      then have "y = 2" using y2 by simp
      then show ?thesis
        using True red_pixel_contrast_double[of "(5, y)"] r by simp
    next
      case False
      then have "y \<noteq> 2" using y2 by simp
      then show ?thesis
        using False r by (simp add: red_pixel_dark_pair)
    qed
    show "spec_pair_contrast red_pixel_image ((2, y), (5, y))
               = (if s \<le> 1 then 299 / 1000 else 0)"
    proof (cases "s \<le> 1")
      case True
      then have "y = 2" using y2 by simp
      then show ?thesis
        using True red_pixel_contrast[of "(5, y)"] r by simp
    next
      case False
      then have "y \<noteq> 2" using y2 by simp
      then show ?thesis
        using False r by (simp add: red_pixel_dark_pair)
    qed
  qed
  show "map (spec_pair_contrast_double red_pixel_image) (spec_left_right s)
           = [if s \<le> 1 then red_contrast else 0, 0]"
    by (simp only: lr list.map left right)
  show "map (spec_pair_contrast red_pixel_image) (spec_left_right s)
           = [if s \<le> 1 then 299 / 1000 else 0, 0]"
    by (simp only: lr list.map left right)
qed

lemma sum_double_zero_pairs:
  assumes "binary64 a = a" and "\<And>x. x \<in> set xs \<Longrightarrow> map c (g x) = [0, 0]"
  shows "sum_double a (map c (concat (map g xs))) = a"
  using assms(2)
proof (induction xs)
  case Nil
  show ?case by (simp add: sum_double_def)
next
  case (Cons x xs)
  have x: "map c (g x) = [0, 0]" using Cons.prems by simp
  have step: "sum_double a [0, 0] = a"
    by (simp only: sum_double_def foldl.simps add_0_right assms(1))
  have ih: "sum_double a (map c (concat (map g xs))) = a"
    using Cons.prems by (intro Cons.IH) simp
  show ?case
    by (simp only: list.map concat.simps map_append x sum_double_append step ih)
qed

lemma sum_list_zero_pairs:
  assumes "\<And>x. x \<in> set xs \<Longrightarrow> map c (g x) = [0, 0::real]"
  shows "sum_list (map c (concat (map g xs))) = 0"
  using assms by (induction xs) simp_all

lemma upt_200_first: "[0..<200] = 0 # [Suc 0..<200]"
  by (rule upt_conv_Cons) simp

lemma upt_200_second: "[Suc 0..<200] = Suc 0 # [Suc (Suc 0)..<200]"
  by (rule upt_conv_Cons) simp

lemma red_pixel_sum_double:
  "sum_double 0 (map (spec_pair_contrast_double red_pixel_image) spec_sample_pairs)
     = 4039728865751335 / 2 ^ 52"
proof -
  let ?c = "spec_pair_contrast_double red_pixel_image"
  have tb0: "map ?c (spec_top_bottom 0) = [red_contrast, 0]"
    using red_pixel_top_bottom(1)[of 0] by simp
  have tb: "map ?c (spec_top_bottom s) = [0, 0]" if "s \<in> set [Suc 0..<200]" for s
    using that[unfolded set_upt] red_pixel_top_bottom(1)[of s] by simp
  have lr0: "map ?c (spec_left_right 0) = [red_contrast, 0]"
    using red_pixel_left_right(1)[of 0] by simp
  have lr1: "map ?c (spec_left_right (Suc 0)) = [red_contrast, 0]"
    using red_pixel_left_right(1)[of "Suc 0"] by simp
  have lr: "map ?c (spec_left_right s) = [0, 0]" if "s \<in> set [Suc (Suc 0)..<200]" for s
    using that[unfolded set_upt] red_pixel_left_right(1)[of s] by simp
  have r0: "sum_double 0 [red_contrast, 0] = red_contrast"
    by (simp only: sum_double_def foldl.simps add_0_left add_0_right red_contrast_double)
  have rows: "sum_double 0 (map ?c (concat (map spec_top_bottom [0..<200]))) = red_contrast"
    by (simp only: upt_200_first list.map concat.simps map_append sum_double_append tb0 r0
          sum_double_zero_pairs[of red_contrast _ ?c spec_top_bottom, OF red_contrast_double tb])
  have c0: "sum_double red_contrast [red_contrast, 0] = 2 * red_contrast"
    by (simp only: sum_double_def foldl.simps add_0_right red_contrast_twice
          red_contrast_twice_double)
  have c1: "sum_double (2 * red_contrast) [red_contrast, 0] = 4039728865751335 / 2 ^ 52"
    by (simp only: sum_double_def foldl.simps add_0_right red_contrast_thrice red_sum_double)
  have cols: "sum_double red_contrast (map ?c (concat (map spec_left_right [0..<200])))
      = 4039728865751335 / 2 ^ 52"
    by (simp only: upt_200_first upt_200_second list.map concat.simps map_append
          sum_double_append lr0 lr1 c0 c1
          sum_double_zero_pairs[of "4039728865751335 / 2 ^ 52" _ ?c spec_left_right,
            OF red_sum_double lr])
  show ?thesis
    by (simp only: spec_sample_pairs_def map_append sum_double_append rows cols)
qed

lemma red_pixel_score: "spec_average_double red_pixel_image = 5170852948161709 / 2 ^ 62"
  unfolding spec_average_double_def red_pixel_sum_double length_spec_sample_pairs
  by (simp only: of_nat_numeral red_score_value)

lemma red_pixel_average: "spec_average red_pixel_image = 897 / 800000"
proof -
  let ?c = "spec_pair_contrast red_pixel_image"
  have tb0: "map ?c (spec_top_bottom 0) = [299 / 1000, 0]"
    using red_pixel_top_bottom(2)[of 0] by simp
  have tb: "map ?c (spec_top_bottom s) = [0, 0]" if "s \<in> set [Suc 0..<200]" for s
    using that[unfolded set_upt] red_pixel_top_bottom(2)[of s] by simp
  have lr0: "map ?c (spec_left_right 0) = [299 / 1000, 0]"
    using red_pixel_left_right(2)[of 0] by simp
  have lr1: "map ?c (spec_left_right (Suc 0)) = [299 / 1000, 0]"
    using red_pixel_left_right(2)[of "Suc 0"] by simp
  have lr: "map ?c (spec_left_right s) = [0, 0]" if "s \<in> set [Suc (Suc 0)..<200]" for s
    using that[unfolded set_upt] red_pixel_left_right(2)[of s] by simp
  have rows: "sum_list (map ?c (concat (map spec_top_bottom [0..<200]))) = 299 / 1000"
    by (simp only: upt_200_first list.map concat.simps map_append sum_list_append tb0
          sum_list_zero_pairs[of _ ?c spec_top_bottom, OF tb])
       simp
  have cols: "sum_list (map ?c (concat (map spec_left_right [0..<200]))) = 2 * (299 / 1000)"
    by (simp only: upt_200_first upt_200_second list.map concat.simps map_append
          sum_list_append lr0 lr1 sum_list_zero_pairs[of _ ?c spec_left_right, OF lr])
       simp
  have "sum_list (map ?c spec_sample_pairs) = 897 / 1000"
    unfolding spec_sample_pairs_def map_append sum_list_append rows cols by simp
  then show ?thesis
    unfolding spec_average_def length_spec_sample_pairs by simp
qed

text \<open>
  Claim C9: on the pixel buffer of the 320 x 202 working raster (\<open>4 * 320 * 202\<close> bytes)
  the edge score that \<^verbatim>\<open>edgeScore\<close> computes is the average of \<open>|Y1 - Y2| / 255\<close>, with
  \<open>Y = 0.299 R + 0.587 G + 0.114 B\<close>, over the 800 sampled pixel pairs, evaluated in
  double precision in the order of the samples; every sampled pixel lies inside the
  raster; the computed score is within \<open>1 / 10 ^ 12\<close> of the average taken in real numbers;
  it lies in \<open>[0, 1]\<close>; and the detector, given a 2D context, accepts exactly when the
  computed score is strictly greater than 0.18.
\<close>

theorem edge_score_is_average_contrast:
  assumes "length img = 258560"
  shows "heuristic_outW = 320 \<and> heuristic_outH = 202
     \<and> edgeScore img heuristic_outW heuristic_outH = Some (spec_average_double img)
     \<and> length spec_sample_pairs = 800
     \<and> (\<forall>pq \<in> set spec_sample_pairs. in_raster (fst pq) \<and> in_raster (snd pq))
     \<and> \<bar>spec_average_double img - spec_average img\<bar> \<le> 1 / 10 ^ 12
     \<and> 0 \<le> spec_average_double img \<and> spec_average_double img \<le> 1
     \<and> (estimateCardHeuristic True img \<longleftrightarrow> spec_average_double img > 0.18)"
  using edgeScore_320[OF assms] spec_sample_pairs_in_raster
    spec_average_double_bounds[of img] spec_average_err[of img] accept_iff[OF assms]
  by (simp add: heuristic_outH_value heuristic_outW_def length_spec_sample_pairs)

theorem edge_score_is_average_contrast_witness:
  "edgeScore white_row_image heuristic_outW heuristic_outH = Some (1 / 4)
   \<and> estimateCardHeuristic True white_row_image
   \<and> edgeScore (replicate 258560 128) heuristic_outW heuristic_outH = Some 0
   \<and> \<not> estimateCardHeuristic True (replicate 258560 128)
   \<and> edgeScore red_pixel_image heuristic_outW heuristic_outH
       = Some (5170852948161709 / 2 ^ 62)
   \<and> spec_average red_pixel_image = 897 / 800000
   \<and> \<not> estimateCardHeuristic True red_pixel_image"
  using edge_score_is_average_contrast [of white_row_image]
    edge_score_is_average_contrast [of "replicate 258560 128"]
    edge_score_is_average_contrast [of red_pixel_image]
  by (simp add: length_white_row_image length_red_pixel_image white_row_score solid_score
        red_pixel_score red_pixel_average)

end
